theory Spec2Isabelle
  imports Complex_Main "HOL-Library.Sublist" "HOL-Library.Multiset"
    "HOL-Library.Char_ord" "HOL-Library.List_Lexorder"
begin

section \<open>Common values\<close>

text \<open>
  A value thrown by a JavaScript call (a rejected promise, a \<^verbatim>\<open>TypeError\<close>, a backend
  failure). Only the fact that something was thrown matters to the handlers below; the
  message is kept for the log.
\<close>

datatype js_error = JsError string

section \<open>services/geminiService.ts\<close>

subsection \<open>String helpers of the platform\<close>

text \<open>\<^verbatim>\<open>String.prototype.split(sep)\<close> for a one-character separator.\<close>

fun split_on :: "char \<Rightarrow> string \<Rightarrow> string list" where
  "split_on c [] = [[]]"
| "split_on c (x # xs) =
     (if x = c then [] # split_on c xs
      else (case split_on c xs of
              [] \<Rightarrow> [[x]]
            | (w # ws) \<Rightarrow> (x # w) # ws))"

text \<open>Reading an array element: \<^verbatim>\<open>undefined\<close> out of range.\<close>

definition js_index :: "'a list \<Rightarrow> nat \<Rightarrow> 'a option" where
  "js_index xs i = (if i < length xs then Some (xs ! i) else None)"

text \<open>
  \<^verbatim>\<open>s.replace(/^data:image\/(png|jpeg|jpg|heic|webp);base64,/, '')\<close>: the first
  alternative that matches at the start of the string is removed, otherwise the string
  is returned as it is.
\<close>

definition data_url_prefixes :: "string list" where
  "data_url_prefixes =
     map (\<lambda>t. ''data:image/'' @ t @ '';base64,'')
       [''png'', ''jpeg'', ''jpg'', ''heic'', ''webp'']"

fun strip_first_prefix :: "string list \<Rightarrow> string \<Rightarrow> string" where
  "strip_first_prefix [] s = s"
| "strip_first_prefix (p # ps) s =
     (if prefix p s then drop (length p) s else strip_first_prefix ps s)"

definition remove_data_url_prefix :: "string \<Rightarrow> string" where
  "remove_data_url_prefix s = strip_first_prefix data_url_prefixes s"

subsection \<open>The collaborators of the caption request\<close>

text \<open>
  Everything \<^verbatim>\<open>generateFoodDescription\<close> awaits is outside the repository: the SDK
  constructor, \<^verbatim>\<open>fetch\<close> and \<^verbatim>\<open>response.blob()\<close> on a blob URL, the
  \<^verbatim>\<open>FileReader\<close>, and the model request. Each is a field of the environment and
  either throws (\<open>Inl\<close>) or returns (\<open>Inr\<close>). The model's \<^verbatim>\<open>response.text\<close> may be
  \<^verbatim>\<open>undefined\<close> (\<open>None\<close>). The inline data handed to the model is
  \<^verbatim>\<open>undefined\<close> when the reader's result has no comma.
\<close>

record gemini_env =
  newGoogleGenAI :: "js_error option"
  fetch_blob :: "string \<Rightarrow> js_error + string"
  readAsDataURL :: "string \<Rightarrow> js_error + string"
  generateContent :: "string option \<Rightarrow> string \<Rightarrow> js_error + string option"

definition dq :: char where
  "dq = CHR 0x22"

definition nl :: char where
  "nl = CHR 0x0A"

definition prompt :: "string \<Rightarrow> string \<Rightarrow> string" where
  "prompt restaurantName userComment =
     ''I am at a restaurant called '' @ [dq] @ restaurantName @ [dq] @ ''.'' @ [nl] @
     ''    Here is a photo of what I'm eating.'' @ [nl] @
     ''    My initial thought is: '' @ [dq] @ userComment @ [dq] @ ''.'' @ [nl] @
     ''    '' @ [nl] @
     ''    Please write a short, fun, 1-sentence social media style caption for this food. '' @ [nl] @
     ''    Mention the visual appeal if possible.''"

text \<open>The body of the \<^verbatim>\<open>try\<close> block: the first throw ends it.\<close>

definition cleanBase64 :: "gemini_env \<Rightarrow> string \<Rightarrow> js_error + string option" where
  "cleanBase64 env base64Image =
     (if prefix ''blob:'' base64Image then
        (case fetch_blob env base64Image of
           Inl e \<Rightarrow> Inl e
         | Inr blob \<Rightarrow>
             (case readAsDataURL env blob of
                Inl e \<Rightarrow> Inl e
              | Inr base64data \<Rightarrow> Inr (js_index (split_on CHR '','' base64data) 1)))
      else Inr (Some (remove_data_url_prefix base64Image)))"

text \<open>\<^verbatim>\<open>response.text || "Delicious!"\<close>: \<^verbatim>\<open>undefined\<close> and the empty string are falsy.\<close>

definition text_or_default :: "string option \<Rightarrow> string" where
  "text_or_default t =
     (case t of None \<Rightarrow> ''Delicious!'' | Some s \<Rightarrow> if s = [] then ''Delicious!'' else s)"

definition generate_try :: "gemini_env \<Rightarrow> string \<Rightarrow> string \<Rightarrow> string \<Rightarrow> js_error + string" where
  "generate_try env base64Image userComment restaurantName =
     (case newGoogleGenAI env of
        Some e \<Rightarrow> Inl e
      | None \<Rightarrow>
          (case cleanBase64 env base64Image of
             Inl e \<Rightarrow> Inl e
           | Inr clean \<Rightarrow>
               (case generateContent env clean (prompt restaurantName userComment) of
                  Inl e \<Rightarrow> Inl e
                | Inr response_text \<Rightarrow> Inr (text_or_default response_text))))"

text \<open>
  The whole function: what the returned promise settles with. \<open>Inl\<close> would be a
  rejection reaching the caller; the \<^verbatim>\<open>catch\<close> block logs and returns the fallback.
\<close>

definition generateFoodDescription ::
  "gemini_env \<Rightarrow> string \<Rightarrow> string \<Rightarrow> string \<Rightarrow> js_error + string" where
  "generateFoodDescription env base64Image userComment restaurantName =
     (case generate_try env base64Image userComment restaurantName of
        Inr s \<Rightarrow> Inr s
      | Inl error \<Rightarrow> Inr ''Could not generate description.'')"

text \<open>The model request as the function issues it, when the steps before it succeed.\<close>

definition model_call ::
  "gemini_env \<Rightarrow> string \<Rightarrow> string \<Rightarrow> string \<Rightarrow> (js_error + string option) option" where
  "model_call env base64Image userComment restaurantName =
     (case newGoogleGenAI env of
        Some e \<Rightarrow> None
      | None \<Rightarrow>
          (case cleanBase64 env base64Image of
             Inl e \<Rightarrow> None
           | Inr clean \<Rightarrow> Some (generateContent env clean (prompt restaurantName userComment))))"

text \<open>A concrete environment for the examples: the model answers with a fixed text.\<close>

definition env_answering :: "js_error + string option \<Rightarrow> gemini_env" where
  "env_answering r =
     \<lparr> newGoogleGenAI = None,
       fetch_blob = (\<lambda>u. Inl (JsError ''fetch failed'')),
       readAsDataURL = (\<lambda>b. Inr (''data:image/jpeg;base64,'' @ b)),
       generateContent = (\<lambda>d p. r) \<rparr>"

section \<open>components/SiteManagementModal.tsx and its stats variant\<close>

subsection \<open>Data model\<close>

datatype user_status = Pending | Approved | Rejected

datatype user_role = User | Admin

text \<open>\<^verbatim>\<open>UserWithId\<close>: a user document together with its document id (field \<^verbatim>\<open>id\<close>).\<close>

record user_profile =
  uid :: string
  email :: string
  displayName :: "string option"
  photoURL :: "string option"
  emailVerified :: bool
  status :: user_status
  role :: user_role
  provider :: "string option"
  createdAt :: string
  approvedBy :: "string option"
  approvedAt :: "string option"

datatype language = En | Zh

datatype notification_type = Admin_approved | Join_approved | System

text \<open>
  The three message literals the approve handlers write. The Chinese literal of the
  manual-override variant is named, not spelled out.
\<close>

datatype message_text =
    Welcome_manually_approved_zh
  | Welcome_manually_approved_en
  | Welcome_approved_en

text \<open>\<^verbatim>\<open>serverTimestamp()\<close>: a sentinel the store replaces by its own clock.\<close>

datatype timestamp = ServerTimestamp

record notification =
  recipientUid :: string
  ntype :: notification_type
  message :: message_text
  read :: bool
  notif_createdAt :: timestamp

subsection \<open>The document store\<close>

text \<open>
  The two collections the handlers write. A write either throws (the injected fault,
  standing for a network or permission failure; \<^verbatim>\<open>updateDoc\<close> also throws when the
  document does not exist) or returns the new store. \<^verbatim>\<open>addDoc\<close> appends a document
  under a fresh id; \<^verbatim>\<open>deleteDoc\<close> succeeds on a missing document too.
\<close>

record backend =
  users_col :: "string \<rightharpoonup> user_profile"
  notifications_col :: "notification list"

definition updateDoc ::
  "js_error option \<Rightarrow> string \<Rightarrow> (user_profile \<Rightarrow> user_profile) \<Rightarrow> backend \<Rightarrow> js_error + backend" where
  "updateDoc fault userId upd b =
     (case fault of
        Some e \<Rightarrow> Inl e
      | None \<Rightarrow>
          (case users_col b userId of
             None \<Rightarrow> Inl (JsError ''not-found'')
           | Some d \<Rightarrow> Inr (b\<lparr>users_col := (users_col b)(userId \<mapsto> upd d)\<rparr>)))"

definition addDoc :: "js_error option \<Rightarrow> notification \<Rightarrow> backend \<Rightarrow> js_error + backend" where
  "addDoc fault n b =
     (case fault of
        Some e \<Rightarrow> Inl e
      | None \<Rightarrow> Inr (b\<lparr>notifications_col := notifications_col b @ [n]\<rparr>))"

definition deleteDoc :: "js_error option \<Rightarrow> string \<Rightarrow> backend \<Rightarrow> js_error + backend" where
  "deleteDoc fault userId b =
     (case fault of
        Some e \<Rightarrow> Inl e
      | None \<Rightarrow> Inr (b\<lparr>users_col := (users_col b)(userId := None)\<rparr>))"

subsection \<open>Component state\<close>

datatype management_view = Menu | Users | PendingUserDetail | ApprovedUserDetail

datatype management_view_1 = Menu_1 | Users_1 | UserDetail_1

text \<open>
  The state hooks the user-management code reads and writes; \<open>'v\<close> is the variant's
  view type. \<^verbatim>\<open>showDeleteConfirm\<close> exists in the manual-override variant only and is
  left untouched by the stats variant.
\<close>

record 'v modal_state =
  currentView :: 'v
  users :: "user_profile list"
  isLoading :: bool
  fetchError :: "string option"
  actionLoading :: "string option"
  selectedUser :: "user_profile option"
  showDeleteConfirm :: bool

text \<open>
  What a handler runs against: the store, the component state, and the \<^verbatim>\<open>alert\<close>
  dialogs shown so far. A handler is modelled as one atomic step: no other event is
  interleaved at its \<^verbatim>\<open>await\<close>s.
\<close>

record 'v world =
  db :: backend
  ui :: "'v modal_state"
  alerts :: "string list"

text \<open>
  What a handler call depends on besides the world: the interface language, the clock
  (\<^verbatim>\<open>new Date().toISOString()\<close>), the answer to \<^verbatim>\<open>window.confirm\<close>, and the
  faults of the three store writes.
\<close>

record handler_env =
  lang :: language
  now_iso :: string
  confirm :: bool
  updateDoc_fault :: "js_error option"
  addDoc_fault :: "js_error option"
  deleteDoc_fault :: "js_error option"

definition alert :: "string \<Rightarrow> 'v world \<Rightarrow> 'v world" where
  "alert msg w = w\<lparr>alerts := alerts w @ [msg]\<rparr>"

definition setActionLoading :: "string option \<Rightarrow> 'v world \<Rightarrow> 'v world" where
  "setActionLoading v w = w\<lparr>ui := (ui w)\<lparr>actionLoading := v\<rparr>\<rparr>"

text \<open>The translation \<^verbatim>\<open>t('saveFailed')\<close> is outside the repository; its key stands for it.\<close>

definition t_saveFailed :: string where
  "t_saveFailed = ''saveFailed''"

subsection \<open>The two buckets\<close>

definition pendingUsers :: "user_profile list \<Rightarrow> user_profile list" where
  "pendingUsers us = filter (\<lambda>u. \<not> emailVerified u \<or> status u \<noteq> Approved) us"

definition approvedUsers :: "user_profile list \<Rightarrow> user_profile list" where
  "approvedUsers us = filter (\<lambda>u. status u = Approved \<and> emailVerified u) us"

definition approvedUsers_1 :: "user_profile list \<Rightarrow> user_profile list" where
  "approvedUsers_1 us = filter (\<lambda>u. status u = Approved) us"

definition pendingUsers_1 :: "user_profile list \<Rightarrow> user_profile list" where
  "pendingUsers_1 us = filter (\<lambda>u. status u = Pending) us"

subsection \<open>Approve\<close>

definition approve_fields :: "string \<Rightarrow> user_profile \<Rightarrow> user_profile" where
  "approve_fields approvedAt_now u =
     u\<lparr>status := Approved, approvedBy := Some ''admin'', approvedAt := Some approvedAt_now\<rparr>"

definition approval_notification :: "language \<Rightarrow> string \<Rightarrow> notification" where
  "approval_notification l userId =
     \<lparr> recipientUid = userId,
       ntype = Admin_approved,
       message = (if l = Zh then Welcome_manually_approved_zh else Welcome_manually_approved_en),
       read = False,
       notif_createdAt = ServerTimestamp \<rparr>"

definition handleApproveUser :: "handler_env \<Rightarrow> string \<Rightarrow> management_view world \<Rightarrow> management_view world" where
  "handleApproveUser env userId w0 =
     (let w = setActionLoading (Some userId) w0;
          approvedAt_now = now_iso env;
          w' =
            (case updateDoc (updateDoc_fault env) userId (approve_fields approvedAt_now) (db w) of
               Inl error \<Rightarrow> alert ''Failed to approve user'' w
             | Inr db1 \<Rightarrow>
                 (case addDoc (addDoc_fault env) (approval_notification (lang env) userId) db1 of
                    Inl error \<Rightarrow> alert ''Failed to approve user'' (w\<lparr>db := db1\<rparr>)
                  | Inr db2 \<Rightarrow>
                      w\<lparr>db := db2,
                        ui := (ui w)
                          \<lparr>users :=
                             map (\<lambda>u. if uid u = userId then approve_fields approvedAt_now u else u)
                               (users (ui w)),
                           selectedUser :=
                             (if map_option uid (selectedUser (ui w)) = Some userId
                              then map_option (approve_fields approvedAt_now) (selectedUser (ui w))
                              else selectedUser (ui w))\<rparr>\<rparr>))
      in setActionLoading None w')"

definition approval_notification_1 :: "string \<Rightarrow> notification" where
  "approval_notification_1 userId =
     \<lparr> recipientUid = userId,
       ntype = Join_approved,
       message = Welcome_approved_en,
       read = False,
       notif_createdAt = ServerTimestamp \<rparr>"

definition handleApproveUser_1 ::
  "handler_env \<Rightarrow> string \<Rightarrow> management_view_1 world \<Rightarrow> management_view_1 world" where
  "handleApproveUser_1 env userId w0 =
     (let w = setActionLoading (Some userId) w0;
          w' =
            (case updateDoc (updateDoc_fault env) userId (\<lambda>d. d\<lparr>status := Approved\<rparr>) (db w) of
               Inl error \<Rightarrow> alert ''Failed to approve user'' w
             | Inr db1 \<Rightarrow>
                 (case addDoc (addDoc_fault env) (approval_notification_1 userId) db1 of
                    Inl error \<Rightarrow> alert ''Failed to approve user'' (w\<lparr>db := db1\<rparr>)
                  | Inr db2 \<Rightarrow>
                      w\<lparr>db := db2,
                        ui := (ui w)
                          \<lparr>users :=
                             map (\<lambda>u. if uid u = userId then u\<lparr>status := Approved\<rparr> else u)
                               (users (ui w))\<rparr>\<rparr>))
      in setActionLoading None w')"

subsection \<open>Reject\<close>

definition handleRejectUser :: "handler_env \<Rightarrow> string \<Rightarrow> management_view world \<Rightarrow> management_view world" where
  "handleRejectUser env userId w0 =
     (if \<not> confirm env then w0
      else
        (let w = setActionLoading (Some userId) w0;
             w' =
               (case updateDoc (updateDoc_fault env) userId (\<lambda>d. d\<lparr>status := Rejected\<rparr>) (db w) of
                  Inl error \<Rightarrow> alert t_saveFailed w
                | Inr db1 \<Rightarrow>
                    w\<lparr>db := db1,
                      ui := (ui w)
                        \<lparr>users :=
                           map (\<lambda>u. if uid u = userId then u\<lparr>status := Rejected\<rparr> else u)
                             (users (ui w)),
                         selectedUser :=
                           (if map_option uid (selectedUser (ui w)) = Some userId
                            then map_option (\<lambda>p. p\<lparr>status := Rejected\<rparr>) (selectedUser (ui w))
                            else selectedUser (ui w))\<rparr>\<rparr>)
         in setActionLoading None w'))"

definition handleRejectUser_1 ::
  "handler_env \<Rightarrow> string \<Rightarrow> management_view_1 world \<Rightarrow> management_view_1 world" where
  "handleRejectUser_1 env userId w0 =
     (if \<not> confirm env then w0
      else
        (let w = setActionLoading (Some userId) w0;
             w' =
               (case updateDoc (updateDoc_fault env) userId (\<lambda>d. d\<lparr>status := Rejected\<rparr>) (db w) of
                  Inl error \<Rightarrow> alert t_saveFailed w
                | Inr db1 \<Rightarrow>
                    w\<lparr>db := db1,
                      ui := (ui w)
                        \<lparr>users :=
                           map (\<lambda>u. if uid u = userId then u\<lparr>status := Rejected\<rparr> else u)
                             (users (ui w))\<rparr>\<rparr>)
         in setActionLoading None w'))"

subsection \<open>Delete\<close>

text \<open>
  The stats variant: \<^verbatim>\<open>handleDeleteUser(userId, email)\<close> asks \<^verbatim>\<open>window.confirm\<close>,
  deletes the document and drops the user from the list. It never looks at the role.
\<close>

definition handleDeleteUser_1 ::
  "handler_env \<Rightarrow> string \<Rightarrow> string \<Rightarrow> management_view_1 world \<Rightarrow> management_view_1 world" where
  "handleDeleteUser_1 env userId mail w0 =
     (if \<not> confirm env then w0
      else
        (let w = setActionLoading (Some userId) w0;
             w' =
               (case deleteDoc (deleteDoc_fault env) userId (db w) of
                  Inl error \<Rightarrow> alert t_saveFailed w
                | Inr db1 \<Rightarrow>
                    w\<lparr>db := db1,
                      ui := (ui w)\<lparr>users := filter (\<lambda>u. uid u \<noteq> userId) (users (ui w))\<rparr>\<rparr>)
         in setActionLoading None w'))"

text \<open>
  The controls whose click reaches \<^verbatim>\<open>handleDeleteUser\<close>, as the render function
  places them: the user ids such a control carries. A \<^verbatim>\<open>disabled\<close> button is not
  clickable. A falsy \<^verbatim>\<open>fetchError\<close> is \<^verbatim>\<open>null\<close> or the empty string.

  Manual-override variant: only the "Confirm Delete" button of the approved-user detail
  view, inside the section rendered under \<^verbatim>\<open>selectedUser.role !== 'admin'\<close> and shown
  once \<^verbatim>\<open>showDeleteConfirm\<close> is set.
\<close>

definition delete_controls :: "management_view modal_state \<Rightarrow> string list" where
  "delete_controls st =
     (case selectedUser st of
        None \<Rightarrow> []
      | Some u \<Rightarrow>
          (if currentView st = ApprovedUserDetail \<and> role u \<noteq> Admin \<and> showDeleteConfirm st
                \<and> actionLoading st \<noteq> Some (uid u)
           then [uid u] else []))"

text \<open>
  Stats variant: one trash button per row of the approved list (replaced by a spinner
  while that row's action is loading), and the "Delete User" button of the detail view.
\<close>

definition delete_controls_1 :: "management_view_1 modal_state \<Rightarrow> string list" where
  "delete_controls_1 st =
     (case currentView st of
        Menu_1 \<Rightarrow> []
      | Users_1 \<Rightarrow>
          (if isLoading st \<or> (fetchError st \<noteq> None \<and> fetchError st \<noteq> Some []) then []
           else map uid (filter (\<lambda>u. actionLoading st \<noteq> Some (uid u)) (approvedUsers_1 (users st))))
      | UserDetail_1 \<Rightarrow>
          (case selectedUser st of None \<Rightarrow> [] | Some u \<Rightarrow> [uid u]))"

section \<open>components/PendingScreen.tsx\<close>

text \<open>The one state hook of the screen: \<^verbatim>\<open>resendCooldown\<close>, a JavaScript number.\<close>

record pending_screen =
  resendCooldown :: int

text \<open>
  The effect that runs after a render with the current counter: when the counter is
  positive it schedules one timer, given here as its delay in milliseconds and the value
  its callback stores (\<^verbatim>\<open>resendCooldown - 1\<close>, with the counter of that render).
\<close>

definition cooldown_effect :: "int \<Rightarrow> (nat \<times> int) option" where
  "cooldown_effect c = (if c > 0 then Some (1000, c - 1) else None)"

text \<open>The scheduled timer fires; without a scheduled timer nothing happens.\<close>

definition timer_fires :: "pending_screen \<Rightarrow> pending_screen" where
  "timer_fires st =
     (case cooldown_effect (resendCooldown st) of
        None \<Rightarrow> st
      | Some (delay_ms, c') \<Rightarrow> st\<lparr>resendCooldown := c'\<rparr>)"

text \<open>
  \<^verbatim>\<open>handleResendVerification\<close>: the argument is what awaiting the caller's
  \<^verbatim>\<open>onResendVerification\<close> gave (\<open>None\<close>: it returned; \<open>Some e\<close>: it threw, which is
  logged).
\<close>

definition handleResendVerification :: "js_error option \<Rightarrow> pending_screen \<Rightarrow> pending_screen" where
  "handleResendVerification outcome st =
     (case outcome of
        None \<Rightarrow> st\<lparr>resendCooldown := 60\<rparr>
      | Some error \<Rightarrow> st)"

text \<open>The resend button's \<^verbatim>\<open>disabled\<close> attribute.\<close>

definition resend_disabled :: "pending_screen \<Rightarrow> bool" where
  "resend_disabled st = (resendCooldown st > 0)"

section \<open>The tutorial overlay (unnamed part 001)\<close>

text \<open>
  A \<^verbatim>\<open>DOMRect\<close>: \<open>x\<close>, \<open>y\<close>, \<open>width\<close>, \<open>height\<close> and the derived edges. Coordinates
  are JavaScript numbers; they are modelled as exact reals, so the rounding of doubles
  is left out.
\<close>

record dom_rect =
  rect_x :: real
  rect_y :: real
  rect_width :: real
  rect_height :: real

definition rect_top :: "dom_rect \<Rightarrow> real" where
  "rect_top r = min (rect_y r) (rect_y r + rect_height r)"

definition rect_bottom :: "dom_rect \<Rightarrow> real" where
  "rect_bottom r = max (rect_y r) (rect_y r + rect_height r)"

definition rect_left :: "dom_rect \<Rightarrow> real" where
  "rect_left r = min (rect_x r) (rect_x r + rect_width r)"

datatype css_length = Percent real | Px real

datatype css_transform = Translate_percent real real | Transform_none

record card_position =
  card_top :: css_length
  card_left :: css_length
  card_transform :: css_transform

definition cardHeight :: real where
  "cardHeight = 280"

definition padding :: real where
  "padding = 16"

definition cardWidth :: "real \<Rightarrow> real" where
  "cardWidth viewportWidth = min 320 (viewportWidth - 32)"

definition elementCenterY :: "dom_rect \<Rightarrow> real" where
  "elementCenterY r = rect_top r + rect_height r / 2"

definition elementCenterX :: "dom_rect \<Rightarrow> real" where
  "elementCenterX r = rect_left r + rect_width r / 2"

text \<open>
  \<^verbatim>\<open>getCardPosition\<close>, from the highlighted rectangle (\<open>None\<close> for \<^verbatim>\<open>null\<close>) and
  \<^verbatim>\<open>window.innerHeight\<close>, \<^verbatim>\<open>window.innerWidth\<close>.
\<close>

definition getCardPosition :: "dom_rect option \<Rightarrow> real \<Rightarrow> real \<Rightarrow> card_position" where
  "getCardPosition highlightRect viewportHeight viewportWidth =
     (case highlightRect of
        None \<Rightarrow>
          \<lparr> card_top = Percent 50, card_left = Percent 50,
            card_transform = Translate_percent (- 50) (- 50) \<rparr>
      | Some r \<Rightarrow>
          \<lparr> card_top =
              Px (if elementCenterY r < viewportHeight / 2
                  then min (rect_bottom r + padding) (viewportHeight - cardHeight - padding)
                  else max (rect_top r - cardHeight - padding) padding),
            card_left =
              Px (max padding
                    (min (elementCenterX r - cardWidth viewportWidth / 2)
                         (viewportWidth - cardWidth viewportWidth - padding))),
            card_transform = Transform_none \<rparr>)"

section \<open>components/HeaderBar.tsx\<close>

text \<open>
  \<^verbatim>\<open>RestaurantWithMap\<close>: of a restaurant only its id and name matter here (the address
  and the visits are carried along unread).
\<close>

record restaurant_with_map =
  rid :: string
  name :: string
  mapId :: string
  mapName :: string

record map_group =
  group_mapName :: string
  restaurants :: "restaurant_with_map list"

subsection \<open>The platform: objects as dictionaries, sorting\<close>

text \<open>
  The \<^verbatim>\<open>groups\<close> object is an association list in the order its properties were
  created. Two facts of JavaScript objects are kept:
  \<^item> reading a key that names a member inherited from \<^verbatim>\<open>Object.prototype\<close> gives
    that member, which is truthy;
  \<^item> \<^verbatim>\<open>Object.entries\<close> lists the keys that are array indices first, in ascending
    numeric order, and then the other keys in creation order.
\<close>

definition object_prototype_keys :: "string list" where
  "object_prototype_keys =
     [''constructor'', ''__defineGetter__'', ''__defineSetter__'', ''hasOwnProperty'',
      ''__lookupGetter__'', ''__lookupSetter__'', ''isPrototypeOf'', ''propertyIsEnumerable'',
      ''toString'', ''valueOf'', ''__proto__'', ''toLocaleString'']"

definition is_digit :: "char \<Rightarrow> bool" where
  "is_digit c = (CHR ''0'' \<le> c \<and> c \<le> CHR ''9'')"

definition index_value :: "string \<Rightarrow> int" where
  "index_value s = foldl (\<lambda>n c. 10 * n + (of_char c - 48)) 0 s"

definition is_array_index :: "string \<Rightarrow> bool" where
  "is_array_index s =
     (s \<noteq> [] \<and> list_all is_digit s \<and> (s = ''0'' \<or> hd s \<noteq> CHR ''0'')
      \<and> index_value s < 4294967295)"

definition object_entries :: "(string \<times> 'a) list \<Rightarrow> (string \<times> 'a) list" where
  "object_entries obj =
     sort_key (\<lambda>e. index_value (fst e)) (filter (\<lambda>e. is_array_index (fst e)) obj)
     @ filter (\<lambda>e. \<not> is_array_index (fst e)) obj"

text \<open>
  \<^verbatim>\<open>Array.prototype.sort(compare)\<close>: a stable sort. For a consistent comparator its
  result is determined: the sorted arrangement in which elements that compare as equal
  keep their order. A stable insertion sort computes it.
\<close>

fun insert_sorted :: "('a \<Rightarrow> 'a \<Rightarrow> int) \<Rightarrow> 'a \<Rightarrow> 'a list \<Rightarrow> 'a list" where
  "insert_sorted cmp x [] = [x]"
| "insert_sorted cmp x (y # ys) =
     (if cmp x y \<le> 0 then x # y # ys else y # insert_sorted cmp x ys)"

definition array_sort :: "('a \<Rightarrow> 'a \<Rightarrow> int) \<Rightarrow> 'a list \<Rightarrow> 'a list" where
  "array_sort cmp xs = foldr (insert_sorted cmp) xs []"

text \<open>
  \<^verbatim>\<open>String.prototype.localeCompare\<close> belongs to the platform and depends on the
  locale: it is a parameter \<open>lc\<close> of the model. What is assumed of it is that it is a
  consistent comparator: a string equals itself, swapping the arguments swaps the sign,
  and "not after" is transitive.
\<close>

definition consistent_comparator :: "(string \<Rightarrow> string \<Rightarrow> int) \<Rightarrow> bool" where
  "consistent_comparator lc =
     ((\<forall>a. lc a a = 0) \<and> (\<forall>a b. (lc a b < 0) = (lc b a > 0))
      \<and> (\<forall>a b c. lc a b \<le> 0 \<and> lc b c \<le> 0 \<longrightarrow> lc a c \<le> 0))"

text \<open>A comparator to run the examples with: strings in the order of their characters.\<close>

definition ordinal_compare :: "string \<Rightarrow> string \<Rightarrow> int" where
  "ordinal_compare a b = (if a < b then - 1 else if a = b then 0 else 1)"

subsection \<open>groupedByMap\<close>

text \<open>
  The body of the first \<^verbatim>\<open>forEach\<close>. For a map id that names an inherited member,
  \<^verbatim>\<open>groups[r.mapId]\<close> is that member: no group is created, its \<^verbatim>\<open>restaurants\<close> is
  \<^verbatim>\<open>undefined\<close>, and \<^verbatim>\<open>push\<close> throws a \<^verbatim>\<open>TypeError\<close>.
\<close>

definition add_restaurant ::
  "restaurant_with_map \<Rightarrow> (string \<times> map_group) list \<Rightarrow> js_error + (string \<times> map_group) list" where
  "add_restaurant r groups =
     (if mapId r \<in> set object_prototype_keys then Inl (JsError ''TypeError'')
      else
        (let groups1 =
               (if map_of groups (mapId r) = None
                then groups @ [(mapId r, \<lparr> group_mapName = mapName r, restaurants = [] \<rparr>)]
                else groups)
         in Inr (map (\<lambda>(k, g). if k = mapId r then (k, g\<lparr>restaurants := restaurants g @ [r]\<rparr>)
                               else (k, g)) groups1)))"

fun forEach_add ::
  "restaurant_with_map list \<Rightarrow> (string \<times> map_group) list \<Rightarrow> js_error + (string \<times> map_group) list" where
  "forEach_add [] groups = Inr groups"
| "forEach_add (r # rs) groups =
     (case add_restaurant r groups of
        Inl e \<Rightarrow> Inl e
      | Inr groups' \<Rightarrow> forEach_add rs groups')"

definition compare_names ::
  "(string \<Rightarrow> string \<Rightarrow> int) \<Rightarrow> restaurant_with_map \<Rightarrow> restaurant_with_map \<Rightarrow> int" where
  "compare_names lc a b = lc (name a) (name b)"

definition sort_each_group ::
  "(string \<Rightarrow> string \<Rightarrow> int) \<Rightarrow> (string \<times> map_group) list \<Rightarrow> (string \<times> map_group) list" where
  "sort_each_group lc groups =
     map (\<lambda>(k, g). (k, g\<lparr>restaurants := array_sort (compare_names lc) (restaurants g)\<rparr>)) groups"

text \<open>The comparator of the entries; \<open>activeMapId\<close> is \<open>None\<close> when the prop is absent.\<close>

definition compare_entries ::
  "(string \<Rightarrow> string \<Rightarrow> int) \<Rightarrow> string option \<Rightarrow> string \<times> map_group \<Rightarrow> string \<times> map_group \<Rightarrow> int" where
  "compare_entries lc activeMapId a b =
     (if Some (fst a) = activeMapId then - 1
      else if Some (fst b) = activeMapId then 1
      else lc (group_mapName (snd a)) (group_mapName (snd b)))"

definition groupedByMap ::
  "(string \<Rightarrow> string \<Rightarrow> int) \<Rightarrow> string option \<Rightarrow> restaurant_with_map list
     \<Rightarrow> js_error + (string \<times> map_group) list" where
  "groupedByMap lc activeMapId allRestaurantsWithMaps =
     (case forEach_add allRestaurantsWithMaps [] of
        Inl e \<Rightarrow> Inl e
      | Inr groups \<Rightarrow>
          Inr (array_sort (compare_entries lc activeMapId)
                 (object_entries (sort_each_group lc groups))))"

section \<open>Notions used in the properties\<close>

subsection \<open>Comparing two versions of a user record\<close>

text \<open>
  Every field other than \<^verbatim>\<open>status\<close>, \<^verbatim>\<open>approvedBy\<close> and \<^verbatim>\<open>approvedAt\<close> has the
  same value in both records.
\<close>

definition same_except_approval :: "user_profile \<Rightarrow> user_profile \<Rightarrow> bool" where
  "same_except_approval u u' =
     (uid u' = uid u \<and> email u' = email u \<and> displayName u' = displayName u
      \<and> photoURL u' = photoURL u \<and> emailVerified u' = emailVerified u \<and> role u' = role u
      \<and> provider u' = provider u \<and> createdAt u' = createdAt u)"

subsection \<open>The grouping\<close>

text \<open>"Not after": the order a comparator induces.\<close>

definition le_by :: "('a \<Rightarrow> 'a \<Rightarrow> int) \<Rightarrow> 'a \<Rightarrow> 'a \<Rightarrow> bool" where
  "le_by cmp a b = (cmp a b \<le> 0)"

text \<open>The restaurants of one map, in the order of the list.\<close>

definition of_map :: "string \<Rightarrow> restaurant_with_map list \<Rightarrow> restaurant_with_map list" where
  "of_map k rs = filter (\<lambda>r. mapId r = k) rs"

text \<open>No map id of the list names a member inherited from \<^verbatim>\<open>Object.prototype\<close>.\<close>

definition plain_ids :: "restaurant_with_map list \<Rightarrow> bool" where
  "plain_ids rs = list_all (\<lambda>r. mapId r \<notin> set object_prototype_keys) rs"

text \<open>
  The state of the \<^verbatim>\<open>groups\<close> object after the first loop has seen the restaurants
  \<open>seen\<close>: one group per map id that occurred, holding that map's restaurants in
  the order seen and the map name of the first of them.
\<close>

definition groups_of :: "restaurant_with_map list \<Rightarrow> (string \<times> map_group) list \<Rightarrow> bool" where
  "groups_of seen groups =
     (distinct (map fst groups)
      \<and> list_all (\<lambda>r. mapId r \<in> fst ` set groups) seen
      \<and> list_all (\<lambda>(k, g). restaurants g = of_map k seen \<and> of_map k seen \<noteq> []
                        \<and> group_mapName g = mapName (hd (of_map k seen))) groups)"

text \<open>
  The input has no ties: restaurants of one map whose names compare as equal are the
  same restaurant, restaurants of one map carry the same map name, and the map names of
  different maps do not compare as equal.
\<close>

definition tie_free :: "(string \<Rightarrow> string \<Rightarrow> int) \<Rightarrow> restaurant_with_map list \<Rightarrow> bool" where
  "tie_free lc rs =
     list_all (\<lambda>a. list_all (\<lambda>b.
        (mapId a = mapId b \<and> lc (name a) (name b) = 0 \<longrightarrow> a = b)
        \<and> (mapId a = mapId b \<longrightarrow> mapName a = mapName b)
        \<and> (lc (mapName a) (mapName b) = 0 \<longrightarrow> mapId a = mapId b)) rs) rs"

text \<open>The group of one map as it leaves the second loop.\<close>

definition group_for ::
  "(string \<Rightarrow> string \<Rightarrow> int) \<Rightarrow> restaurant_with_map list \<Rightarrow> string \<Rightarrow> map_group" where
  "group_for lc rs k =
     \<lparr> group_mapName = mapName (hd (of_map k rs)),
       restaurants = array_sort (compare_names lc) (of_map k rs) \<rparr>"

section \<open>Example data\<close>

subsection \<open>Users, a store and the two consoles\<close>

text \<open>A rejected, email-verified user; an approved administrator; a pending user.\<close>

definition user_bob :: user_profile where
  "user_bob =
     \<lparr> uid = ''u1'', email = ''bob@example.com'', displayName = Some ''Bob'', photoURL = None,
       emailVerified = True, status = Rejected, role = User, provider = None,
       createdAt = ''2024-01-01T00:00:00.000Z'', approvedBy = None, approvedAt = None \<rparr>"

definition user_root :: user_profile where
  "user_root =
     \<lparr> uid = ''a1'', email = ''root@example.com'', displayName = Some ''Root'', photoURL = None,
       emailVerified = True, status = Approved, role = Admin, provider = None,
       createdAt = ''2023-06-01T00:00:00.000Z'', approvedBy = None, approvedAt = None \<rparr>"

definition user_carol :: user_profile where
  "user_carol =
     \<lparr> uid = ''u2'', email = ''carol@example.com'', displayName = None, photoURL = None,
       emailVerified = False, status = Pending, role = User, provider = None,
       createdAt = ''2024-02-01T00:00:00.000Z'', approvedBy = None, approvedAt = None \<rparr>"

text \<open>A handler call in which every store write succeeds and the prompt is confirmed.\<close>

definition env_ok :: handler_env where
  "env_ok =
     \<lparr> lang = En, now_iso = ''2024-03-01T12:00:00.000Z'', confirm = True,
       updateDoc_fault = None, addDoc_fault = None, deleteDoc_fault = None \<rparr>"

definition example_db :: backend where
  "example_db =
     \<lparr> users_col = [''u1'' \<mapsto> user_bob, ''a1'' \<mapsto> user_root, ''u2'' \<mapsto> user_carol],
       notifications_col = [] \<rparr>"

text \<open>The manual-override variant with the detail view of the pending user open.\<close>

definition example_world :: "management_view world" where
  "example_world =
     \<lparr> db = example_db,
       ui = \<lparr> currentView = PendingUserDetail, users = [user_carol, user_bob, user_root],
              isLoading = False, fetchError = None, actionLoading = None,
              selectedUser = Some user_carol, showDeleteConfirm = False \<rparr>,
       alerts = [] \<rparr>"

text \<open>The stats variant with the user list open.\<close>

definition example_world_1 :: "management_view_1 world" where
  "example_world_1 =
     \<lparr> db = example_db,
       ui = \<lparr> currentView = Users_1, users = [user_carol, user_bob, user_root],
              isLoading = False, fetchError = None, actionLoading = None,
              selectedUser = None, showDeleteConfirm = False \<rparr>,
       alerts = [] \<rparr>"

subsection \<open>The screens\<close>

text \<open>The pending screen as mounted.\<close>

definition screen_initial :: pending_screen where
  "screen_initial = \<lparr> resendCooldown = 0 \<rparr>"

text \<open>A 100 by 40 element in the top left corner.\<close>

definition corner_rect :: dom_rect where
  "corner_rect = \<lparr> rect_x = 0, rect_y = 0, rect_width = 100, rect_height = 40 \<rparr>"

text \<open>A 56 by 56 button near the bottom right of a viewport 400 wide and 800 high.\<close>

definition button_rect :: dom_rect where
  "button_rect = \<lparr> rect_x = 320, rect_y = 700, rect_width = 56, rect_height = 56 \<rparr>"

subsection \<open>A restaurant list\<close>

text \<open>
  Two restaurants called "Cafe" and one called "Bar" on the map "Home", and a "Deli" on
  the map "Away".
\<close>

definition r_cafe :: restaurant_with_map where
  "r_cafe = \<lparr> rid = ''r1'', name = ''Cafe'', mapId = ''m1'', mapName = ''Home'' \<rparr>"

definition r_cafe_2 :: restaurant_with_map where
  "r_cafe_2 = \<lparr> rid = ''r2'', name = ''Cafe'', mapId = ''m1'', mapName = ''Home'' \<rparr>"

definition r_bar :: restaurant_with_map where
  "r_bar = \<lparr> rid = ''r3'', name = ''Bar'', mapId = ''m1'', mapName = ''Home'' \<rparr>"

definition r_deli :: restaurant_with_map where
  "r_deli = \<lparr> rid = ''r4'', name = ''Deli'', mapId = ''m2'', mapName = ''Away'' \<rparr>"

section \<open>Properties of generateFoodDescription\<close>

lemma cleanBase64_data_url:
  "cleanBase64 env ''data:image/jpeg;base64,AAAA'' = Inr (Some ''AAAA'')"
  by (simp add: cleanBase64_def remove_data_url_prefix_def data_url_prefixes_def)

lemma model_call_env_answering:
  "model_call (env_answering a) ''data:image/jpeg;base64,AAAA'' c r = Some a"
  by (simp add: model_call_def cleanBase64_data_url env_answering_def)

lemma model_call_None_throws:
  "model_call env i c r = None \<Longrightarrow> \<exists>e. generate_try env i c r = Inl e"
  by (auto simp add: generate_try_def model_call_def split: option.splits sum.splits)

text \<open>
  Claim C4, as amended. For every image string, comment and restaurant name:
  when the model request completes with a non-empty text, the function returns that
  text; when the model request throws, or any other step of the \<^verbatim>\<open>try\<close> block
  throws, it returns the literal "Could not generate description."; and in every case
  the promise is fulfilled with a string, so no error reaches the caller.
  (An empty or missing text is the subject of claim C9.)
\<close>

theorem C4_text_or_fallback:
  "(model_call env i c r = Some (Inr (Some t)) \<and> t \<noteq> [] \<longrightarrow>
      generateFoodDescription env i c r = Inr t)
   \<and> (model_call env i c r = Some (Inl e) \<longrightarrow>
      generateFoodDescription env i c r = Inr ''Could not generate description.'')
   \<and> (generate_try env i c r = Inl e \<longrightarrow>
      generateFoodDescription env i c r = Inr ''Could not generate description.'')
   \<and> (\<exists>s. generateFoodDescription env i c r = Inr s)"
  by (auto simp add: generateFoodDescription_def generate_try_def model_call_def
      text_or_default_def split: option.splits sum.splits)

theorem C4_text_or_fallback_witness:
  "model_call (env_answering (Inr (Some ''Crispy!''))) ''data:image/jpeg;base64,AAAA'' ''yum'' ''Joe''
     = Some (Inr (Some ''Crispy!''))
   \<and> ''Crispy!'' \<noteq> []
   \<and> generateFoodDescription (env_answering (Inr (Some ''Crispy!''))) ''data:image/jpeg;base64,AAAA''
       ''yum'' ''Joe'' = Inr ''Crispy!''
   \<and> model_call (env_answering (Inl (JsError ''quota''))) ''data:image/jpeg;base64,AAAA'' ''yum'' ''Joe''
     = Some (Inl (JsError ''quota''))
   \<and> generate_try (env_answering (Inl (JsError ''quota''))) ''data:image/jpeg;base64,AAAA'' ''yum'' ''Joe''
     = Inl (JsError ''quota'')
   \<and> generateFoodDescription (env_answering (Inl (JsError ''quota''))) ''data:image/jpeg;base64,AAAA''
       ''yum'' ''Joe'' = Inr ''Could not generate description.''"
proof -
  have g: "generate_try (env_answering (Inl (JsError ''quota''))) ''data:image/jpeg;base64,AAAA''
      ''yum'' ''Joe'' = Inl (JsError ''quota'')"
    by (simp add: generate_try_def cleanBase64_data_url env_answering_def)
  show ?thesis
    using
      C4_text_or_fallback [of "env_answering (Inr (Some ''Crispy!''))"
        "''data:image/jpeg;base64,AAAA''" "''yum''" "''Joe''" "''Crispy!''" "JsError ''quota''"]
      C4_text_or_fallback [of "env_answering (Inl (JsError ''quota''))"
        "''data:image/jpeg;base64,AAAA''" "''yum''" "''Joe''" "''Crispy!''" "JsError ''quota''"]
      g
    by (simp add: model_call_env_answering)
qed

text \<open>
  Claim C4 as written fails: the model request completes with the empty text, and the
  function returns "Delicious!", not the model's text.
\<close>

theorem C4_counterexample:
  "model_call (env_answering (Inr (Some ''''))) ''data:image/jpeg;base64,AAAA'' ''yum'' ''Joe''
     = Some (Inr (Some ''''))
   \<and> generateFoodDescription (env_answering (Inr (Some ''''))) ''data:image/jpeg;base64,AAAA''
       ''yum'' ''Joe'' \<noteq> Inr ''''"
proof -
  have "generateFoodDescription (env_answering (Inr (Some ''''))) ''data:image/jpeg;base64,AAAA''
      ''yum'' ''Joe'' = Inr ''Delicious!''"
    by (simp add: generateFoodDescription_def generate_try_def cleanBase64_data_url
        text_or_default_def env_answering_def)
  then show ?thesis
    by (simp add: model_call_env_answering)
qed

text \<open>
  Claim C9. For every input, if the model request completes without throwing and its
  text is missing or empty, the function returns the literal "Delicious!", which is
  neither the model's text nor the failure fallback "Could not generate description.".
\<close>

theorem C9_delicious_default:
  assumes "model_call env i c r = Some (Inr t)"
    and "t = None \<or> t = Some []"
  shows "generateFoodDescription env i c r = Inr ''Delicious!''
         \<and> ''Delicious!'' \<noteq> ''Could not generate description.''
         \<and> t \<noteq> Some ''Delicious!''"
  using assms
  by (auto simp add: generateFoodDescription_def generate_try_def model_call_def
      text_or_default_def split: option.splits sum.splits)

theorem C9_delicious_default_witness:
  "model_call (env_answering (Inr None)) ''data:image/jpeg;base64,AAAA'' ''yum'' ''Joe''
     = Some (Inr None)
   \<and> generateFoodDescription (env_answering (Inr None)) ''data:image/jpeg;base64,AAAA''
       ''yum'' ''Joe'' = Inr ''Delicious!''"
  using C9_delicious_default [of "env_answering (Inr None)" "''data:image/jpeg;base64,AAAA''"
      "''yum''" "''Joe''" None]
  by (simp add: model_call_env_answering)

section \<open>Properties of the admin console\<close>

subsection \<open>The buckets\<close>

lemma buckets_cover: "mset (pendingUsers us) + mset (approvedUsers us) = mset us"
  unfolding pendingUsers_def approvedUsers_def
  by (induction us) auto

text \<open>
  Claim C2, as amended. In the manual-override variant the fetched list is split into
  two buckets: a user is pending iff not email-verified or status other than approved,
  and approved iff status approved and email-verified; every user of the list is in
  exactly one of the two (the two buckets together are the list, entry for entry), and
  a rejected user is in the pending bucket. In the stats variant the buckets go by
  status alone: pending iff status pending, approved iff status approved; no user is in
  both, and a rejected user is in neither.
\<close>

theorem C2_buckets:
  "(u \<in> set (pendingUsers us) \<longleftrightarrow> u \<in> set us \<and> (\<not> emailVerified u \<or> status u \<noteq> Approved))
   \<and> (u \<in> set (approvedUsers us) \<longleftrightarrow> u \<in> set us \<and> status u = Approved \<and> emailVerified u)
   \<and> (u \<in> set us \<longrightarrow> (u \<in> set (pendingUsers us)) \<noteq> (u \<in> set (approvedUsers us)))
   \<and> (u \<in> set us \<and> status u = Rejected \<longrightarrow> u \<in> set (pendingUsers us))
   \<and> mset (pendingUsers us) + mset (approvedUsers us) = mset us
   \<and> (u \<in> set (pendingUsers_1 us) \<longleftrightarrow> u \<in> set us \<and> status u = Pending)
   \<and> (u \<in> set (approvedUsers_1 us) \<longleftrightarrow> u \<in> set us \<and> status u = Approved)
   \<and> \<not> (u \<in> set (pendingUsers_1 us) \<and> u \<in> set (approvedUsers_1 us))
   \<and> (status u = Rejected \<longrightarrow> u \<notin> set (pendingUsers_1 us) \<and> u \<notin> set (approvedUsers_1 us))"
  using buckets_cover [of us]
  by (auto simp add: pendingUsers_def approvedUsers_def pendingUsers_1_def approvedUsers_1_def)

theorem C2_buckets_witness:
  "user_bob \<in> set [user_carol, user_bob, user_root] \<and> status user_bob = Rejected
   \<and> user_bob \<in> set (pendingUsers [user_carol, user_bob, user_root])
   \<and> user_bob \<notin> set (approvedUsers [user_carol, user_bob, user_root])
   \<and> user_bob \<notin> set (pendingUsers_1 [user_carol, user_bob, user_root])
   \<and> user_bob \<notin> set (approvedUsers_1 [user_carol, user_bob, user_root])"
  using C2_buckets [of user_bob "[user_carol, user_bob, user_root]"]
  by (simp add: user_bob_def)

text \<open>
  Claim C2 as written fails in the stats variant: a rejected user of the list is in
  neither bucket, so not in the pending one.
\<close>

theorem C2_counterexample:
  "user_bob \<in> set [user_bob] \<and> status user_bob = Rejected
   \<and> user_bob \<notin> set (pendingUsers_1 [user_bob]) \<and> user_bob \<notin> set (approvedUsers_1 [user_bob])"
  by (simp add: user_bob_def pendingUsers_1_def approvedUsers_1_def)

subsection \<open>Approve\<close>

lemma db_after_approve:
  "updateDoc_fault env = None \<Longrightarrow> addDoc_fault env = None \<Longrightarrow> users_col (db w) X = Some d \<Longrightarrow>
   db (handleApproveUser env X w) =
     (db w)\<lparr>users_col := (users_col (db w))(X \<mapsto> approve_fields (now_iso env) d),
            notifications_col := notifications_col (db w) @ [approval_notification (lang env) X]\<rparr>"
  by (simp add: handleApproveUser_def setActionLoading_def updateDoc_def addDoc_def Let_def)

lemma ui_after_approve:
  "updateDoc_fault env = None \<Longrightarrow> addDoc_fault env = None \<Longrightarrow> users_col (db w) X = Some d \<Longrightarrow>
   users (ui (handleApproveUser env X w)) =
     map (\<lambda>u. if uid u = X then approve_fields (now_iso env) u else u) (users (ui w))"
  by (simp add: handleApproveUser_def setActionLoading_def updateDoc_def addDoc_def Let_def)

lemma db_after_approve_1:
  "updateDoc_fault env = None \<Longrightarrow> addDoc_fault env = None \<Longrightarrow> users_col (db w) X = Some d \<Longrightarrow>
   db (handleApproveUser_1 env X w) =
     (db w)\<lparr>users_col := (users_col (db w))(X \<mapsto> d\<lparr>status := Approved\<rparr>),
            notifications_col := notifications_col (db w) @ [approval_notification_1 X]\<rparr>"
  by (simp add: handleApproveUser_1_def setActionLoading_def updateDoc_def addDoc_def Let_def)

lemma ui_after_approve_1:
  "updateDoc_fault env = None \<Longrightarrow> addDoc_fault env = None \<Longrightarrow> users_col (db w) X = Some d \<Longrightarrow>
   users (ui (handleApproveUser_1 env X w)) =
     map (\<lambda>u. if uid u = X then u\<lparr>status := Approved\<rparr> else u) (users (ui w))"
  by (simp add: handleApproveUser_1_def setActionLoading_def updateDoc_def addDoc_def Let_def)

text \<open>Whatever the store does, an approve call adds at most one notification, addressed to the user.\<close>

lemma approve_notifications_at_most_one:
  "\<exists>ns. notifications_col (db (handleApproveUser env X w)) = notifications_col (db w) @ ns
     \<and> length ns \<le> 1 \<and> (\<forall>n\<in>set ns. recipientUid n = X)"
  by (auto simp add: handleApproveUser_def setActionLoading_def updateDoc_def addDoc_def Let_def
      alert_def approval_notification_def split: sum.splits option.splits)

lemma approve_1_notifications_at_most_one:
  "\<exists>ns. notifications_col (db (handleApproveUser_1 env X w)) = notifications_col (db w) @ ns
     \<and> length ns \<le> 1 \<and> (\<forall>n\<in>set ns. recipientUid n = X)"
  by (auto simp add: handleApproveUser_1_def setActionLoading_def updateDoc_def addDoc_def Let_def
      alert_def approval_notification_1_def split: sum.splits option.splits)

text \<open>The entries with the given id of a list mapped by "replace the entries with that id".\<close>

lemma map_if_uid_prop:
  assumes P: "\<And>v. uid v = X \<Longrightarrow> P (f v)"
    and f: "\<And>v. uid (f v) = uid v"
    and u: "u \<in> set (map (\<lambda>v. if uid v = X then f v else v) us)"
    and X: "uid u = X"
  shows "P u"
proof -
  from u have "u \<in> (\<lambda>v. if uid v = X then f v else v) ` set us"
    by (simp only: set_map)
  then obtain v where v: "v \<in> set us" "u = (if uid v = X then f v else v)"
    by blast
  show ?thesis
  proof (cases "uid v = X")
    case True
    with v P show ?thesis by simp
  next
    case False
    with v X show ?thesis by simp
  qed
qed

text \<open>The approve action when the document exists and both writes succeed.\<close>

lemma approve_when_writes_succeed:
  assumes "updateDoc_fault env = None" and "addDoc_fault env = None"
    and "users_col (db w) X = Some d" and "users_col (db w1) X = Some d1"
  shows
    "users_col (db (handleApproveUser env X w)) X
       = Some (d\<lparr>status := Approved, approvedBy := Some ''admin'', approvedAt := Some (now_iso env)\<rparr>)
     \<and> (\<exists>n. notifications_col (db (handleApproveUser env X w)) = notifications_col (db w) @ [n]
            \<and> recipientUid n = X)
     \<and> (\<forall>u \<in> set (users (ui (handleApproveUser env X w))). uid u = X \<longrightarrow>
            status u = Approved \<and> approvedBy u = Some ''admin'' \<and> approvedAt u = Some (now_iso env))
     \<and> users_col (db (handleApproveUser_1 env X w1)) X = Some (d1\<lparr>status := Approved\<rparr>)
     \<and> (\<exists>n. notifications_col (db (handleApproveUser_1 env X w1)) = notifications_col (db w1) @ [n]
            \<and> recipientUid n = X)
     \<and> (\<forall>u \<in> set (users (ui (handleApproveUser_1 env X w1))). uid u = X \<longrightarrow> status u = Approved)"
proof -
  note dbm = db_after_approve [OF assms(1) assms(2) assms(3)]
  note uim = ui_after_approve [OF assms(1) assms(2) assms(3)]
  note dbs = db_after_approve_1 [OF assms(1) assms(2) assms(4)]
  note uis = ui_after_approve_1 [OF assms(1) assms(2) assms(4)]
  have 1: "users_col (db (handleApproveUser env X w)) X
       = Some (d\<lparr>status := Approved, approvedBy := Some ''admin'', approvedAt := Some (now_iso env)\<rparr>)"
    by (simp add: dbm approve_fields_def)
  have 2: "\<exists>n. notifications_col (db (handleApproveUser env X w)) = notifications_col (db w) @ [n]
            \<and> recipientUid n = X"
    by (simp add: dbm approval_notification_def)
  have 3: "\<forall>u \<in> set (users (ui (handleApproveUser env X w))). uid u = X \<longrightarrow>
            status u = Approved \<and> approvedBy u = Some ''admin'' \<and> approvedAt u = Some (now_iso env)"
  proof (intro ballI impI)
    fix u
    assume "u \<in> set (users (ui (handleApproveUser env X w)))" and "uid u = X"
    then show "status u = Approved \<and> approvedBy u = Some ''admin'' \<and> approvedAt u = Some (now_iso env)"
      unfolding uim
      by (rule map_if_uid_prop [where f = "approve_fields (now_iso env)", rotated 2])
        (simp_all add: approve_fields_def)
  qed
  have 4: "users_col (db (handleApproveUser_1 env X w1)) X = Some (d1\<lparr>status := Approved\<rparr>)"
    by (simp add: dbs)
  have 5: "\<exists>n. notifications_col (db (handleApproveUser_1 env X w1)) = notifications_col (db w1) @ [n]
            \<and> recipientUid n = X"
    by (simp add: dbs approval_notification_1_def)
  have 6: "\<forall>u \<in> set (users (ui (handleApproveUser_1 env X w1))). uid u = X \<longrightarrow> status u = Approved"
  proof (intro ballI impI)
    fix u
    assume "u \<in> set (users (ui (handleApproveUser_1 env X w1)))" and "uid u = X"
    then show "status u = Approved"
      unfolding uis
      by (rule map_if_uid_prop [where f = "\<lambda>v. v\<lparr>status := Approved\<rparr>", rotated 2]) simp_all
  qed
  from 1 2 3 4 5 6 show ?thesis by blast
qed

lemma example_db_carol: "users_col (db example_world) ''u2'' = Some user_carol"
  by (simp add: example_world_def example_db_def)

lemma example_db_1_carol: "users_col (db example_world_1) ''u2'' = Some user_carol"
  by (simp add: example_world_1_def example_db_def)

lemma approve_update_fails:
  assumes "updateDoc_fault env \<noteq> None \<or> users_col (db w) X = None"
  shows "db (handleApproveUser env X w) = db w
     \<and> users (ui (handleApproveUser env X w)) = users (ui w)
     \<and> alerts (handleApproveUser env X w) = alerts w @ [''Failed to approve user'']"
  using assms
  by (auto simp add: handleApproveUser_def setActionLoading_def updateDoc_def alert_def Let_def
      split: option.splits)

lemma approve_1_update_fails:
  assumes "updateDoc_fault env \<noteq> None \<or> users_col (db w) X = None"
  shows "db (handleApproveUser_1 env X w) = db w
     \<and> users (ui (handleApproveUser_1 env X w)) = users (ui w)
     \<and> alerts (handleApproveUser_1 env X w) = alerts w @ [''Failed to approve user'']"
  using assms
  by (auto simp add: handleApproveUser_1_def setActionLoading_def updateDoc_def alert_def Let_def
      split: option.splits)

lemma approve_add_fails:
  assumes "updateDoc_fault env = None" and "addDoc_fault env \<noteq> None"
    and "users_col (db w) X = Some d"
  shows "users_col (db (handleApproveUser env X w)) X
       = Some (d\<lparr>status := Approved, approvedBy := Some ''admin'', approvedAt := Some (now_iso env)\<rparr>)
     \<and> notifications_col (db (handleApproveUser env X w)) = notifications_col (db w)
     \<and> users (ui (handleApproveUser env X w)) = users (ui w)
     \<and> alerts (handleApproveUser env X w) = alerts w @ [''Failed to approve user'']"
  using assms
  by (auto simp add: handleApproveUser_def setActionLoading_def updateDoc_def addDoc_def alert_def
      Let_def approve_fields_def)

lemma approve_1_add_fails:
  assumes "updateDoc_fault env = None" and "addDoc_fault env \<noteq> None"
    and "users_col (db w) X = Some d"
  shows "users_col (db (handleApproveUser_1 env X w)) X = Some (d\<lparr>status := Approved\<rparr>)
     \<and> notifications_col (db (handleApproveUser_1 env X w)) = notifications_col (db w)
     \<and> users (ui (handleApproveUser_1 env X w)) = users (ui w)
     \<and> alerts (handleApproveUser_1 env X w) = alerts w @ [''Failed to approve user'']"
  using assms
  by (auto simp add: handleApproveUser_1_def setActionLoading_def updateDoc_def addDoc_def alert_def
      Let_def)

text \<open>
  Claim C3, as amended. For every user id, in both variants (first the manual-override
  variant, then the stats variant):
  \<^item> when the user's document exists and both store writes succeed, the document has
    status approved afterwards (and, in the manual-override variant,
    \<^verbatim>\<open>approvedBy = 'admin'\<close> and \<^verbatim>\<open>approvedAt\<close> the current time), exactly one
    notification document has been added, its \<^verbatim>\<open>recipientUid\<close> is that user's id,
    and the entries of the displayed list with that id show the same fields;
  \<^item> when the write to the user's document fails (the store throws, or the document does
    not exist), the store and the displayed list are unchanged: no status is set and no
    notification is created; an alert is shown;
  \<^item> when the write to the user's document succeeds and the write of the notification
    fails, the document has status approved (and the approval fields) but no
    notification is created and the displayed list is unchanged; an alert is shown;
  \<^item> in every case at most one notification is created, and it is addressed to that user.
\<close>

theorem C3_approve:
  "(updateDoc_fault env = None \<and> addDoc_fault env = None \<and> users_col (db w) X = Some d
      \<and> users_col (db w1) X = Some d1 \<longrightarrow>
       users_col (db (handleApproveUser env X w)) X
         = Some (d\<lparr>status := Approved, approvedBy := Some ''admin'', approvedAt := Some (now_iso env)\<rparr>)
       \<and> (\<exists>n. notifications_col (db (handleApproveUser env X w)) = notifications_col (db w) @ [n]
              \<and> recipientUid n = X)
       \<and> (\<forall>u \<in> set (users (ui (handleApproveUser env X w))). uid u = X \<longrightarrow>
              status u = Approved \<and> approvedBy u = Some ''admin'' \<and> approvedAt u = Some (now_iso env))
       \<and> users_col (db (handleApproveUser_1 env X w1)) X = Some (d1\<lparr>status := Approved\<rparr>)
       \<and> (\<exists>n. notifications_col (db (handleApproveUser_1 env X w1)) = notifications_col (db w1) @ [n]
              \<and> recipientUid n = X)
       \<and> (\<forall>u \<in> set (users (ui (handleApproveUser_1 env X w1))). uid u = X \<longrightarrow> status u = Approved))
   \<and> (updateDoc_fault env \<noteq> None \<or> users_col (db w) X = None \<longrightarrow>
         db (handleApproveUser env X w) = db w
         \<and> users (ui (handleApproveUser env X w)) = users (ui w)
         \<and> alerts (handleApproveUser env X w) = alerts w @ [''Failed to approve user''])
   \<and> (updateDoc_fault env \<noteq> None \<or> users_col (db w1) X = None \<longrightarrow>
         db (handleApproveUser_1 env X w1) = db w1
         \<and> users (ui (handleApproveUser_1 env X w1)) = users (ui w1)
         \<and> alerts (handleApproveUser_1 env X w1) = alerts w1 @ [''Failed to approve user''])
   \<and> (updateDoc_fault env = None \<and> addDoc_fault env \<noteq> None \<and> users_col (db w) X = Some d \<longrightarrow>
         users_col (db (handleApproveUser env X w)) X
           = Some (d\<lparr>status := Approved, approvedBy := Some ''admin'', approvedAt := Some (now_iso env)\<rparr>)
         \<and> notifications_col (db (handleApproveUser env X w)) = notifications_col (db w)
         \<and> users (ui (handleApproveUser env X w)) = users (ui w)
         \<and> alerts (handleApproveUser env X w) = alerts w @ [''Failed to approve user''])
   \<and> (updateDoc_fault env = None \<and> addDoc_fault env \<noteq> None \<and> users_col (db w1) X = Some d1 \<longrightarrow>
         users_col (db (handleApproveUser_1 env X w1)) X = Some (d1\<lparr>status := Approved\<rparr>)
         \<and> notifications_col (db (handleApproveUser_1 env X w1)) = notifications_col (db w1)
         \<and> users (ui (handleApproveUser_1 env X w1)) = users (ui w1)
         \<and> alerts (handleApproveUser_1 env X w1) = alerts w1 @ [''Failed to approve user''])
   \<and> (\<exists>ns. notifications_col (db (handleApproveUser env X w)) = notifications_col (db w) @ ns
         \<and> length ns \<le> 1 \<and> (\<forall>n\<in>set ns. recipientUid n = X))
   \<and> (\<exists>ns. notifications_col (db (handleApproveUser_1 env X w1)) = notifications_col (db w1) @ ns
         \<and> length ns \<le> 1 \<and> (\<forall>n\<in>set ns. recipientUid n = X))"
  using approve_when_writes_succeed [of env w X d w1 d1]
    approve_update_fails [of env w X] approve_1_update_fails [of env w1 X]
    approve_add_fails [of env w X d] approve_1_add_fails [of env w1 X d1]
    approve_notifications_at_most_one [of env X w] approve_1_notifications_at_most_one [of env X w1]
  by blast

theorem C3_approve_witness:
  "updateDoc_fault env_ok = None \<and> addDoc_fault env_ok = None
   \<and> users_col (db example_world) ''u2'' = Some user_carol
   \<and> users_col (db example_world_1) ''u2'' = Some user_carol
   \<and> users_col (db (handleApproveUser env_ok ''u2'' example_world)) ''u2''
       = Some (user_carol\<lparr>status := Approved, approvedBy := Some ''admin'',
                approvedAt := Some ''2024-03-01T12:00:00.000Z''\<rparr>)
   \<and> users_col (db (handleApproveUser_1 env_ok ''u2'' example_world_1)) ''u2''
       = Some (user_carol\<lparr>status := Approved\<rparr>)
   \<and> updateDoc_fault (env_ok\<lparr>updateDoc_fault := Some (JsError ''unavailable'')\<rparr>) \<noteq> None
   \<and> db (handleApproveUser (env_ok\<lparr>updateDoc_fault := Some (JsError ''unavailable'')\<rparr>) ''u2''
        example_world) = db example_world
   \<and> db (handleApproveUser_1 (env_ok\<lparr>updateDoc_fault := Some (JsError ''unavailable'')\<rparr>) ''u2''
        example_world_1) = db example_world_1
   \<and> updateDoc_fault (env_ok\<lparr>addDoc_fault := Some (JsError ''unavailable'')\<rparr>) = None
   \<and> addDoc_fault (env_ok\<lparr>addDoc_fault := Some (JsError ''unavailable'')\<rparr>) \<noteq> None
   \<and> notifications_col (db (handleApproveUser (env_ok\<lparr>addDoc_fault := Some (JsError ''unavailable'')\<rparr>)
        ''u2'' example_world)) = notifications_col (db example_world)
   \<and> notifications_col (db (handleApproveUser_1 (env_ok\<lparr>addDoc_fault := Some (JsError ''unavailable'')\<rparr>)
        ''u2'' example_world_1)) = notifications_col (db example_world_1)"
proof -
  have a: "updateDoc_fault env_ok = None" and b: "addDoc_fault env_ok = None"
    and c: "now_iso env_ok = ''2024-03-01T12:00:00.000Z''"
    by (simp_all add: env_ok_def)
  have d: "updateDoc_fault (env_ok\<lparr>updateDoc_fault := Some (JsError ''unavailable'')\<rparr>) \<noteq> None"
    by simp
  have e: "updateDoc_fault (env_ok\<lparr>addDoc_fault := Some (JsError ''unavailable'')\<rparr>) = None"
    and f: "addDoc_fault (env_ok\<lparr>addDoc_fault := Some (JsError ''unavailable'')\<rparr>) \<noteq> None"
    by (simp_all add: env_ok_def)
  from C3_approve [of env_ok example_world "''u2''" user_carol example_world_1 user_carol]
    a b c example_db_carol example_db_1_carol
  have 1: "users_col (db (handleApproveUser env_ok ''u2'' example_world)) ''u2''
       = Some (user_carol\<lparr>status := Approved, approvedBy := Some ''admin'',
                approvedAt := Some ''2024-03-01T12:00:00.000Z''\<rparr>)
     \<and> users_col (db (handleApproveUser_1 env_ok ''u2'' example_world_1)) ''u2''
       = Some (user_carol\<lparr>status := Approved\<rparr>)"
    by simp
  from C3_approve [of "env_ok\<lparr>updateDoc_fault := Some (JsError ''unavailable'')\<rparr>" example_world
      "''u2''" user_carol example_world_1 user_carol] d
  have 2: "db (handleApproveUser (env_ok\<lparr>updateDoc_fault := Some (JsError ''unavailable'')\<rparr>) ''u2''
        example_world) = db example_world
     \<and> db (handleApproveUser_1 (env_ok\<lparr>updateDoc_fault := Some (JsError ''unavailable'')\<rparr>) ''u2''
        example_world_1) = db example_world_1"
    by blast
  from C3_approve [of "env_ok\<lparr>addDoc_fault := Some (JsError ''unavailable'')\<rparr>" example_world
      "''u2''" user_carol example_world_1 user_carol] e f example_db_carol example_db_1_carol
  have 3: "notifications_col (db (handleApproveUser (env_ok\<lparr>addDoc_fault := Some (JsError ''unavailable'')\<rparr>)
        ''u2'' example_world)) = notifications_col (db example_world)
     \<and> notifications_col (db (handleApproveUser_1 (env_ok\<lparr>addDoc_fault := Some (JsError ''unavailable'')\<rparr>)
        ''u2'' example_world_1)) = notifications_col (db example_world_1)"
    by blast
  from a b d e f example_db_carol example_db_1_carol 1 2 3 show ?thesis by blast
qed

text \<open>
  Claim C3 as written fails: the user's document exists and its update succeeds, the
  write of the notification fails. The document then has status approved, and no
  notification document exists.
\<close>

theorem C3_counterexample:
  "users_col (db example_world) ''u2'' = Some user_carol
   \<and> (\<exists>d. users_col (db (handleApproveUser (env_ok\<lparr>addDoc_fault := Some (JsError ''unavailable'')\<rparr>)
             ''u2'' example_world)) ''u2'' = Some d \<and> status d = Approved)
   \<and> notifications_col (db (handleApproveUser (env_ok\<lparr>addDoc_fault := Some (JsError ''unavailable'')\<rparr>)
        ''u2'' example_world)) = []"
  by (simp add: handleApproveUser_def setActionLoading_def updateDoc_def addDoc_def alert_def
      Let_def approve_fields_def env_ok_def example_world_def example_db_def)

subsection \<open>The frame of approve\<close>

lemma users_after_approve:
  "users (ui (handleApproveUser env X w)) = users (ui w)
   \<or> users (ui (handleApproveUser env X w)) =
       map (\<lambda>u. if uid u = X then approve_fields (now_iso env) u else u) (users (ui w))"
  by (simp add: handleApproveUser_def setActionLoading_def alert_def Let_def split: sum.splits)

lemma users_after_approve_1:
  "users (ui (handleApproveUser_1 env X w)) = users (ui w)
   \<or> users (ui (handleApproveUser_1 env X w)) =
       map (\<lambda>u. if uid u = X then u\<lparr>status := Approved\<rparr> else u) (users (ui w))"
  by (simp add: handleApproveUser_1_def setActionLoading_def alert_def Let_def split: sum.splits)

lemma same_except_approval_refl: "same_except_approval u u"
  by (simp add: same_except_approval_def)

lemma frame_map:
  assumes f: "\<And>u. same_except_approval u (f u)"
    and us': "us' = us \<or> us' = map (\<lambda>u. if uid u = X then f u else u) us"
  shows "length us' = length us
     \<and> (\<forall>i < length us. (uid (us ! i) \<noteq> X \<longrightarrow> us' ! i = us ! i)
           \<and> same_except_approval (us ! i) (us' ! i))"
proof (cases "us' = us")
  case True
  then show ?thesis by (simp add: same_except_approval_refl)
next
  case False
  with us' have "us' = map (\<lambda>u. if uid u = X then f u else u) us" by simp
  then show ?thesis by (simp add: f same_except_approval_refl)
qed

text \<open>
  Claim C10. Approving the user with id X, in either variant and whatever the store
  answers, leaves the displayed list with the same length and order; an entry whose id
  is not X is unchanged; and in every entry all fields other than status, approvedBy
  and approvedAt (the id among them) keep their values.
\<close>

theorem C10_approve_frame:
  "length (users (ui (handleApproveUser env X w))) = length (users (ui w))
   \<and> (\<forall>i < length (users (ui w)).
        (uid (users (ui w) ! i) \<noteq> X \<longrightarrow> users (ui (handleApproveUser env X w)) ! i = users (ui w) ! i)
        \<and> same_except_approval (users (ui w) ! i) (users (ui (handleApproveUser env X w)) ! i))
   \<and> length (users (ui (handleApproveUser_1 env X w1))) = length (users (ui w1))
   \<and> (\<forall>i < length (users (ui w1)).
        (uid (users (ui w1) ! i) \<noteq> X \<longrightarrow> users (ui (handleApproveUser_1 env X w1)) ! i = users (ui w1) ! i)
        \<and> same_except_approval (users (ui w1) ! i) (users (ui (handleApproveUser_1 env X w1)) ! i))"
proof -
  have a: "\<And>u. same_except_approval u (approve_fields (now_iso env) u)"
    by (simp add: same_except_approval_def approve_fields_def)
  have b: "\<And>u. same_except_approval u (u\<lparr>status := Approved\<rparr>)"
    by (simp add: same_except_approval_def)
  from frame_map [of "approve_fields (now_iso env)", OF a users_after_approve]
    frame_map [of "\<lambda>u. u\<lparr>status := Approved\<rparr>", OF b users_after_approve_1]
  show ?thesis by blast
qed

theorem C10_approve_frame_witness:
  "(1::nat) < length (users (ui example_world))
   \<and> uid (users (ui example_world) ! 1) \<noteq> ''u2''
   \<and> users (ui (handleApproveUser env_ok ''u2'' example_world)) ! 1 = users (ui example_world) ! 1
   \<and> same_except_approval (users (ui example_world) ! 1)
        (users (ui (handleApproveUser env_ok ''u2'' example_world)) ! 1)
   \<and> (1::nat) < length (users (ui example_world_1))
   \<and> uid (users (ui example_world_1) ! 1) \<noteq> ''u2''
   \<and> users (ui (handleApproveUser_1 env_ok ''u2'' example_world_1)) ! 1 = users (ui example_world_1) ! 1"
proof -
  have a: "(1::nat) < length (users (ui example_world))"
    and b: "uid (users (ui example_world) ! 1) \<noteq> ''u2''"
    by (simp_all add: example_world_def user_bob_def)
  have c: "(1::nat) < length (users (ui example_world_1))"
    and d: "uid (users (ui example_world_1) ! 1) \<noteq> ''u2''"
    by (simp_all add: example_world_1_def user_bob_def)
  from C10_approve_frame [of env_ok "''u2''" example_world example_world_1] a b c d
  show ?thesis by blast
qed

subsection \<open>Reject\<close>

lemma reject_cancelled:
  "\<not> confirm env \<Longrightarrow> handleRejectUser env X w = w"
  by (simp add: handleRejectUser_def)

lemma reject_1_cancelled:
  "\<not> confirm env \<Longrightarrow> handleRejectUser_1 env X w = w"
  by (simp add: handleRejectUser_1_def)

lemma db_after_reject:
  "confirm env \<Longrightarrow> updateDoc_fault env = None \<Longrightarrow> users_col (db w) X = Some d \<Longrightarrow>
   db (handleRejectUser env X w) = (db w)\<lparr>users_col := (users_col (db w))(X \<mapsto> d\<lparr>status := Rejected\<rparr>)\<rparr>"
  by (simp add: handleRejectUser_def setActionLoading_def updateDoc_def Let_def)

lemma ui_after_reject:
  "confirm env \<Longrightarrow> updateDoc_fault env = None \<Longrightarrow> users_col (db w) X = Some d \<Longrightarrow>
   users (ui (handleRejectUser env X w)) =
     map (\<lambda>u. if uid u = X then u\<lparr>status := Rejected\<rparr> else u) (users (ui w))"
  by (simp add: handleRejectUser_def setActionLoading_def updateDoc_def Let_def)

lemma db_after_reject_1:
  "confirm env \<Longrightarrow> updateDoc_fault env = None \<Longrightarrow> users_col (db w) X = Some d \<Longrightarrow>
   db (handleRejectUser_1 env X w) = (db w)\<lparr>users_col := (users_col (db w))(X \<mapsto> d\<lparr>status := Rejected\<rparr>)\<rparr>"
  by (simp add: handleRejectUser_1_def setActionLoading_def updateDoc_def Let_def)

lemma ui_after_reject_1:
  "confirm env \<Longrightarrow> updateDoc_fault env = None \<Longrightarrow> users_col (db w) X = Some d \<Longrightarrow>
   users (ui (handleRejectUser_1 env X w)) =
     map (\<lambda>u. if uid u = X then u\<lparr>status := Rejected\<rparr> else u) (users (ui w))"
  by (simp add: handleRejectUser_1_def setActionLoading_def updateDoc_def Let_def)

text \<open>The reject action when cancelled, and when confirmed with the write succeeding.\<close>

lemma reject_when_write_succeeds:
  "(\<not> confirm env \<longrightarrow> handleRejectUser env X w = w \<and> handleRejectUser_1 env X w1 = w1)
   \<and> (confirm env \<and> updateDoc_fault env = None \<and> users_col (db w) X = Some d \<longrightarrow>
        users_col (db (handleRejectUser env X w)) X = Some (d\<lparr>status := Rejected\<rparr>)
        \<and> (\<forall>u \<in> set (users (ui (handleRejectUser env X w))). uid u = X \<longrightarrow> status u = Rejected))
   \<and> (confirm env \<and> updateDoc_fault env = None \<and> users_col (db w1) X = Some d1 \<longrightarrow>
        users_col (db (handleRejectUser_1 env X w1)) X = Some (d1\<lparr>status := Rejected\<rparr>)
        \<and> (\<forall>u \<in> set (users (ui (handleRejectUser_1 env X w1))). uid u = X \<longrightarrow> status u = Rejected))"
proof (intro conjI impI)
  assume "\<not> confirm env"
  then show "handleRejectUser env X w = w" and "handleRejectUser_1 env X w1 = w1"
    by (simp_all add: reject_cancelled reject_1_cancelled)
next
  assume h: "confirm env \<and> updateDoc_fault env = None \<and> users_col (db w) X = Some d"
  then show "users_col (db (handleRejectUser env X w)) X = Some (d\<lparr>status := Rejected\<rparr>)"
    by (simp add: db_after_reject)
  from h have ui: "users (ui (handleRejectUser env X w)) =
      map (\<lambda>u. if uid u = X then u\<lparr>status := Rejected\<rparr> else u) (users (ui w))"
    by (simp add: ui_after_reject)
  show "\<forall>u \<in> set (users (ui (handleRejectUser env X w))). uid u = X \<longrightarrow> status u = Rejected"
  proof (intro ballI impI)
    fix u
    assume "u \<in> set (users (ui (handleRejectUser env X w)))" and "uid u = X"
    then show "status u = Rejected"
      unfolding ui
      by (rule map_if_uid_prop [where f = "\<lambda>v. v\<lparr>status := Rejected\<rparr>", rotated 2]) simp_all
  qed
next
  assume h: "confirm env \<and> updateDoc_fault env = None \<and> users_col (db w1) X = Some d1"
  then show "users_col (db (handleRejectUser_1 env X w1)) X = Some (d1\<lparr>status := Rejected\<rparr>)"
    by (simp add: db_after_reject_1)
  from h have ui: "users (ui (handleRejectUser_1 env X w1)) =
      map (\<lambda>u. if uid u = X then u\<lparr>status := Rejected\<rparr> else u) (users (ui w1))"
    by (simp add: ui_after_reject_1)
  show "\<forall>u \<in> set (users (ui (handleRejectUser_1 env X w1))). uid u = X \<longrightarrow> status u = Rejected"
  proof (intro ballI impI)
    fix u
    assume "u \<in> set (users (ui (handleRejectUser_1 env X w1)))" and "uid u = X"
    then show "status u = Rejected"
      unfolding ui
      by (rule map_if_uid_prop [where f = "\<lambda>v. v\<lparr>status := Rejected\<rparr>", rotated 2]) simp_all
  qed
qed

lemma reject_update_fails:
  assumes "confirm env" and "updateDoc_fault env \<noteq> None \<or> users_col (db w) X = None"
  shows "db (handleRejectUser env X w) = db w
     \<and> users (ui (handleRejectUser env X w)) = users (ui w)
     \<and> alerts (handleRejectUser env X w) = alerts w @ [t_saveFailed]"
  using assms
  by (auto simp add: handleRejectUser_def setActionLoading_def updateDoc_def alert_def Let_def
      split: option.splits)

lemma reject_1_update_fails:
  assumes "confirm env" and "updateDoc_fault env \<noteq> None \<or> users_col (db w) X = None"
  shows "db (handleRejectUser_1 env X w) = db w
     \<and> users (ui (handleRejectUser_1 env X w)) = users (ui w)
     \<and> alerts (handleRejectUser_1 env X w) = alerts w @ [t_saveFailed]"
  using assms
  by (auto simp add: handleRejectUser_1_def setActionLoading_def updateDoc_def alert_def Let_def
      split: option.splits)

text \<open>
  Claim C5, as amended. For every user id, in both variants, the reject action first asks
  for confirmation. If the confirmation is cancelled, nothing is changed: the store, the
  component state and the dialogs are as before. If it is confirmed and the write to the
  user's document succeeds, the status of the document and of the entries of the
  displayed list with that id is rejected. If it is confirmed and the write fails (the
  store throws, or the document does not exist), the store and the displayed list are
  unchanged, so the status is not set, and an alert is shown.
\<close>

theorem C5_reject:
  "(\<not> confirm env \<longrightarrow> handleRejectUser env X w = w \<and> handleRejectUser_1 env X w1 = w1)
   \<and> (confirm env \<and> updateDoc_fault env = None \<and> users_col (db w) X = Some d \<longrightarrow>
        users_col (db (handleRejectUser env X w)) X = Some (d\<lparr>status := Rejected\<rparr>)
        \<and> (\<forall>u \<in> set (users (ui (handleRejectUser env X w))). uid u = X \<longrightarrow> status u = Rejected))
   \<and> (confirm env \<and> updateDoc_fault env = None \<and> users_col (db w1) X = Some d1 \<longrightarrow>
        users_col (db (handleRejectUser_1 env X w1)) X = Some (d1\<lparr>status := Rejected\<rparr>)
        \<and> (\<forall>u \<in> set (users (ui (handleRejectUser_1 env X w1))). uid u = X \<longrightarrow> status u = Rejected))
   \<and> (confirm env \<and> (updateDoc_fault env \<noteq> None \<or> users_col (db w) X = None) \<longrightarrow>
        db (handleRejectUser env X w) = db w
        \<and> users (ui (handleRejectUser env X w)) = users (ui w)
        \<and> alerts (handleRejectUser env X w) = alerts w @ [t_saveFailed])
   \<and> (confirm env \<and> (updateDoc_fault env \<noteq> None \<or> users_col (db w1) X = None) \<longrightarrow>
        db (handleRejectUser_1 env X w1) = db w1
        \<and> users (ui (handleRejectUser_1 env X w1)) = users (ui w1)
        \<and> alerts (handleRejectUser_1 env X w1) = alerts w1 @ [t_saveFailed])"
  using reject_when_write_succeeds [of env X w w1 d d1]
    reject_update_fails [of env w X] reject_1_update_fails [of env w1 X]
  by blast

theorem C5_reject_witness:
  "\<not> confirm (env_ok\<lparr>confirm := False\<rparr>)
   \<and> handleRejectUser (env_ok\<lparr>confirm := False\<rparr>) ''u2'' example_world = example_world
   \<and> handleRejectUser_1 (env_ok\<lparr>confirm := False\<rparr>) ''u2'' example_world_1 = example_world_1
   \<and> confirm env_ok \<and> updateDoc_fault env_ok = None
   \<and> users_col (db example_world) ''u2'' = Some user_carol
   \<and> users_col (db example_world_1) ''u2'' = Some user_carol
   \<and> users_col (db (handleRejectUser env_ok ''u2'' example_world)) ''u2''
        = Some (user_carol\<lparr>status := Rejected\<rparr>)
   \<and> users_col (db (handleRejectUser_1 env_ok ''u2'' example_world_1)) ''u2''
        = Some (user_carol\<lparr>status := Rejected\<rparr>)
   \<and> confirm (env_ok\<lparr>updateDoc_fault := Some (JsError ''unavailable'')\<rparr>)
   \<and> updateDoc_fault (env_ok\<lparr>updateDoc_fault := Some (JsError ''unavailable'')\<rparr>) \<noteq> None
   \<and> db (handleRejectUser (env_ok\<lparr>updateDoc_fault := Some (JsError ''unavailable'')\<rparr>) ''u2''
        example_world) = db example_world
   \<and> db (handleRejectUser_1 (env_ok\<lparr>updateDoc_fault := Some (JsError ''unavailable'')\<rparr>) ''u2''
        example_world_1) = db example_world_1"
proof -
  have a: "\<not> confirm (env_ok\<lparr>confirm := False\<rparr>)" by simp
  have b: "confirm env_ok" and c: "updateDoc_fault env_ok = None"
    by (simp_all add: env_ok_def)
  have d: "confirm (env_ok\<lparr>updateDoc_fault := Some (JsError ''unavailable'')\<rparr>)"
    and e: "updateDoc_fault (env_ok\<lparr>updateDoc_fault := Some (JsError ''unavailable'')\<rparr>) \<noteq> None"
    by (simp_all add: env_ok_def)
  from C5_reject [of "env_ok\<lparr>confirm := False\<rparr>" "''u2''" example_world example_world_1
      user_carol user_carol]
    C5_reject [of env_ok "''u2''" example_world example_world_1 user_carol user_carol]
    C5_reject [of "env_ok\<lparr>updateDoc_fault := Some (JsError ''unavailable'')\<rparr>" "''u2''"
      example_world example_world_1 user_carol user_carol]
    a b c d e example_db_carol example_db_1_carol
  show ?thesis by blast
qed

text \<open>
  Claim C5 as written fails: the confirmation is given and the write to the user's
  document fails. The document keeps its status, pending, and so does the entry of the
  displayed list.
\<close>

theorem C5_counterexample:
  "confirm (env_ok\<lparr>updateDoc_fault := Some (JsError ''unavailable'')\<rparr>)
   \<and> users_col (db (handleRejectUser (env_ok\<lparr>updateDoc_fault := Some (JsError ''unavailable'')\<rparr>)
        ''u2'' example_world)) ''u2'' = Some user_carol
   \<and> users (ui (handleRejectUser (env_ok\<lparr>updateDoc_fault := Some (JsError ''unavailable'')\<rparr>)
        ''u2'' example_world)) = [user_carol, user_bob, user_root]
   \<and> status user_carol = Pending \<and> status user_carol \<noteq> Rejected"
  by (simp add: handleRejectUser_def setActionLoading_def updateDoc_def alert_def Let_def
      env_ok_def example_world_def example_db_def user_carol_def)

subsection \<open>Delete\<close>

text \<open>
  In the manual-override variant a control that deletes is rendered only for the
  selected user of the approved-user detail view, and only when that user is no
  administrator.
\<close>

lemma delete_controls_never_admin:
  assumes "x \<in> set (delete_controls st)"
  shows "\<exists>u. selectedUser st = Some u \<and> uid u = x \<and> role u \<noteq> Admin
           \<and> currentView st = ApprovedUserDetail"
proof (cases "selectedUser st")
  case None
  with assms show ?thesis by (simp add: delete_controls_def)
next
  case (Some u)
  with assms show ?thesis by (simp add: delete_controls_def split: if_splits)
qed

lemma delete_controls_admin_selected:
  "selectedUser st = Some u \<Longrightarrow> role u = Admin \<Longrightarrow> delete_controls st = []"
  by (simp add: delete_controls_def)

text \<open>
  Claim C1 fails in the stats variant. With the user list open and an approved
  administrator in it, the row of the administrator carries a delete control; clicking
  it and confirming the prompt removes the administrator's document from the store and
  the entry from the list. The same holds with the administrator's detail view open.
\<close>

theorem C1_stats_variant_deletes_admin:
  "role user_root = Admin
   \<and> user_root \<in> set (users (ui example_world_1))
   \<and> users_col (db example_world_1) (uid user_root) = Some user_root
   \<and> uid user_root \<in> set (delete_controls_1 (ui example_world_1))
   \<and> uid user_root \<in> set (delete_controls_1
        ((ui example_world_1)\<lparr>currentView := UserDetail_1, selectedUser := Some user_root\<rparr>))
   \<and> users_col (db (handleDeleteUser_1 env_ok (uid user_root) (email user_root) example_world_1))
        (uid user_root) = None
   \<and> user_root \<notin> set (users (ui (handleDeleteUser_1 env_ok (uid user_root) (email user_root)
        example_world_1)))"
  by (simp add: example_world_1_def example_db_def delete_controls_1_def approvedUsers_1_def
      handleDeleteUser_1_def setActionLoading_def deleteDoc_def env_ok_def Let_def
      user_root_def user_carol_def user_bob_def)

section \<open>Properties of the pending screen\<close>

lemma timer_fires_positive:
  "resendCooldown st > 0 \<Longrightarrow> timer_fires st = st\<lparr>resendCooldown := resendCooldown st - 1\<rparr>"
  by (simp add: timer_fires_def cooldown_effect_def)

lemma timer_fires_idle:
  "\<not> resendCooldown st > 0 \<Longrightarrow> timer_fires st = st"
  by (simp add: timer_fires_def cooldown_effect_def)

lemma countdown:
  "k \<le> 60 \<Longrightarrow>
   (timer_fires ^^ k) (handleResendVerification None st) = st\<lparr>resendCooldown := 60 - int k\<rparr>"
proof (induction k)
  case 0
  show ?case by (simp add: handleResendVerification_def)
next
  case (Suc k)
  then have "(timer_fires ^^ k) (handleResendVerification None st) = st\<lparr>resendCooldown := 60 - int k\<rparr>"
    by simp
  moreover have "resendCooldown (st\<lparr>resendCooldown := 60 - int k\<rparr>) > 0"
    using Suc.prems by simp
  ultimately show ?case
    by (simp add: timer_fires_positive)
qed

text \<open>
  Claim C7. After a resend action whose callback returned, the counter is 60. Each
  firing of the timer the effect schedules (always with a delay of 1000 ms, and only
  while the counter is positive) lowers it by one, so after k firings, k up to 60, it is
  60 - k, and it is 0 after the sixtieth, when no further timer is scheduled. The resend
  button is disabled exactly when the counter is positive: during the countdown, and no
  longer after it. A resend action whose callback threw leaves the counter alone.
\<close>

theorem C7_cooldown:
  "resendCooldown (handleResendVerification None st) = 60
   \<and> (\<forall>k \<le> 60.
         resendCooldown ((timer_fires ^^ k) (handleResendVerification None st)) = 60 - int k
         \<and> (resend_disabled ((timer_fires ^^ k) (handleResendVerification None st)) \<longleftrightarrow> k < 60)
         \<and> (k < 60 \<longrightarrow> cooldown_effect (60 - int k) = Some (1000, 60 - int k - 1)))
   \<and> cooldown_effect 0 = None
   \<and> timer_fires ((timer_fires ^^ 60) (handleResendVerification None st))
        = (timer_fires ^^ 60) (handleResendVerification None st)
   \<and> (resend_disabled s \<longleftrightarrow> resendCooldown s > 0)
   \<and> handleResendVerification (Some e) st = st"
proof -
  have 1: "resendCooldown (handleResendVerification None st) = 60"
    by (simp add: handleResendVerification_def)
  have 2: "\<forall>k \<le> 60.
         resendCooldown ((timer_fires ^^ k) (handleResendVerification None st)) = 60 - int k
         \<and> (resend_disabled ((timer_fires ^^ k) (handleResendVerification None st)) \<longleftrightarrow> k < 60)
         \<and> (k < 60 \<longrightarrow> cooldown_effect (60 - int k) = Some (1000, 60 - int k - 1))"
  proof (intro allI impI)
    fix k :: nat
    assume k: "k \<le> 60"
    show "resendCooldown ((timer_fires ^^ k) (handleResendVerification None st)) = 60 - int k
         \<and> (resend_disabled ((timer_fires ^^ k) (handleResendVerification None st)) \<longleftrightarrow> k < 60)
         \<and> (k < 60 \<longrightarrow> cooldown_effect (60 - int k) = Some (1000, 60 - int k - 1))"
      using k by (auto simp add: countdown resend_disabled_def cooldown_effect_def)
  qed
  have 3: "cooldown_effect 0 = None"
    by (simp add: cooldown_effect_def)
  have 4: "timer_fires ((timer_fires ^^ 60) (handleResendVerification None st))
        = (timer_fires ^^ 60) (handleResendVerification None st)"
    by (simp add: countdown timer_fires_idle)
  have 5: "resend_disabled s \<longleftrightarrow> resendCooldown s > 0"
    by (simp add: resend_disabled_def)
  have 6: "handleResendVerification (Some e) st = st"
    by (simp add: handleResendVerification_def)
  from 1 2 3 4 5 6 show ?thesis by blast
qed

theorem C7_cooldown_witness:
  "(3::nat) \<le> 60
   \<and> resendCooldown ((timer_fires ^^ 3) (handleResendVerification None screen_initial)) = 57
   \<and> resend_disabled ((timer_fires ^^ 3) (handleResendVerification None screen_initial))
   \<and> cooldown_effect 57 = Some (1000, 56)
   \<and> resendCooldown ((timer_fires ^^ 60) (handleResendVerification None screen_initial)) = 0
   \<and> \<not> resend_disabled ((timer_fires ^^ 60) (handleResendVerification None screen_initial))"
proof -
  have a: "(3::nat) \<le> 60" and b: "(60::nat) \<le> 60" and c: "(3::nat) < 60"
    by simp_all
  from C7_cooldown [of screen_initial] a c
  have "resendCooldown ((timer_fires ^^ 3) (handleResendVerification None screen_initial)) = 60 - int 3
        \<and> resend_disabled ((timer_fires ^^ 3) (handleResendVerification None screen_initial))
        \<and> cooldown_effect (60 - int 3) = Some (1000, 60 - int 3 - 1)"
    by blast
  moreover from C7_cooldown [of screen_initial] b
  have "resendCooldown ((timer_fires ^^ 60) (handleResendVerification None screen_initial)) = 60 - int 60
        \<and> \<not> resend_disabled ((timer_fires ^^ 60) (handleResendVerification None screen_initial))"
    by blast
  ultimately show ?thesis by simp
qed

section \<open>Properties of the tutorial card position\<close>



lemma getCardPosition_corner:
  "getCardPosition (Some corner_rect) 800 400 =
     \<lparr> card_top = Px 56, card_left = Px 16, card_transform = Transform_none \<rparr>"
  by (simp add: getCardPosition_def corner_rect_def elementCenterY_def elementCenterX_def
      rect_top_def rect_bottom_def rect_left_def padding_def cardHeight_def cardWidth_def)

lemma getCardPosition_button:
  "getCardPosition (Some button_rect) 800 400 =
     \<lparr> card_top = Px 404, card_left = Px 64, card_transform = Transform_none \<rparr>"
  by (simp add: getCardPosition_def button_rect_def elementCenterY_def elementCenterX_def
      rect_top_def rect_bottom_def rect_left_def padding_def cardHeight_def cardWidth_def)


text \<open>
  In a viewport 10 pixels wide the card width is negative and the card's left
  coordinate is 16, to the right of the viewport.
\<close>

lemma getCardPosition_narrow:
  "cardWidth 10 = - 22
   \<and> getCardPosition (Some corner_rect) 800 10 =
       \<lparr> card_top = Px 56, card_left = Px 16, card_transform = Transform_none \<rparr>"
  by (simp add: getCardPosition_def corner_rect_def elementCenterY_def elementCenterX_def
      rect_top_def rect_bottom_def rect_left_def padding_def cardHeight_def cardWidth_def)


section \<open>Properties of the stable sort\<close>

lemma mset_insert_sorted: "mset (insert_sorted cmp x xs) = add_mset x (mset xs)"
  by (induction xs) simp_all

lemma mset_array_sort: "mset (array_sort cmp xs) = mset xs"
  unfolding array_sort_def
  by (induction xs) (simp_all add: mset_insert_sorted)

lemma set_array_sort: "set (array_sort cmp xs) = set xs"
  using mset_array_sort [of cmp xs] by (metis set_mset_mset)

lemma set_insert_sorted: "set (insert_sorted cmp x xs) = insert x (set xs)"
  using mset_insert_sorted [of cmp x xs] by (metis set_mset_mset set_mset_add_mset_insert)

lemma sorted_insert_sorted:
  assumes total: "\<And>a b. le_by cmp a b \<or> le_by cmp b a"
    and trans: "\<And>a b c. le_by cmp a b \<Longrightarrow> le_by cmp b c \<Longrightarrow> le_by cmp a c"
    and xs: "sorted_wrt (le_by cmp) xs"
  shows "sorted_wrt (le_by cmp) (insert_sorted cmp x xs)"
  using xs
proof (induction xs)
  case Nil
  show ?case by simp
next
  case (Cons y ys)
  show ?case
  proof (cases "cmp x y \<le> 0")
    case True
    then have xy: "le_by cmp x y" by (simp add: le_by_def)
    have "\<forall>z \<in> set ys. le_by cmp x z"
      using Cons.prems xy trans by auto
    with True xy Cons.prems show ?thesis by simp
  next
    case False
    then have yx: "le_by cmp y x"
      using total [of x y] by (simp add: le_by_def)
    from Cons have "sorted_wrt (le_by cmp) (insert_sorted cmp x ys)" by simp
    moreover have "\<forall>z \<in> set (insert_sorted cmp x ys). le_by cmp y z"
      using Cons.prems yx by (simp add: set_insert_sorted)
    ultimately show ?thesis using False by simp
  qed
qed

lemma sorted_array_sort:
  assumes total: "\<And>a b. le_by cmp a b \<or> le_by cmp b a"
    and trans: "\<And>a b c. le_by cmp a b \<Longrightarrow> le_by cmp b c \<Longrightarrow> le_by cmp a c"
  shows "sorted_wrt (le_by cmp) (array_sort cmp xs)"
  unfolding array_sort_def
proof (induction xs)
  case Nil
  show ?case by simp
next
  case (Cons x xs)
  then show ?case
    using sorted_insert_sorted [OF total trans] by simp
qed

text \<open>Two sorted arrangements of the same elements agree when no two distinct elements tie.\<close>

lemma sorted_wrt_unique:
  assumes "sorted_wrt R xs" and "sorted_wrt R ys" and "mset xs = mset ys"
    and "\<And>a b. a \<in> set xs \<Longrightarrow> b \<in> set xs \<Longrightarrow> R a b \<Longrightarrow> R b a \<Longrightarrow> a = b"
  shows "xs = ys"
  using assms
proof (induction xs arbitrary: ys)
  case Nil
  then show ?case by simp
next
  case (Cons x xs)
  from Cons.prems(3) obtain y ys' where ys: "ys = y # ys'"
    by (cases ys) auto
  have sets: "set (x # xs) = set ys"
    using Cons.prems(3) by (metis set_mset_mset)
  have "x = y"
  proof (rule ccontr)
    assume neq: "x \<noteq> y"
    with sets ys have "x \<in> set ys'" and "y \<in> set xs" by auto
    with Cons.prems(1) Cons.prems(2) ys have "R y x" and "R x y" by auto
    with Cons.prems(4) [of x y] \<open>y \<in> set xs\<close> neq show False by simp
  qed
  moreover from this Cons.prems(3) ys have "mset xs = mset ys'" by simp
  moreover have "sorted_wrt R xs" and "sorted_wrt R ys'"
    using Cons.prems(1) Cons.prems(2) ys by simp_all
  ultimately have "xs = ys'"
    using Cons.IH [of ys'] Cons.prems(4) by simp
  with \<open>x = y\<close> ys show ?case by simp
qed

text \<open>Stability: the elements that compare as equal to a given one keep their order.\<close>

lemma filter_insert_sorted:
  assumes sym: "\<And>a b. cmp a b = 0 \<Longrightarrow> cmp b a = 0"
    and trans: "\<And>a b c. cmp a b \<le> 0 \<Longrightarrow> cmp b c \<le> 0 \<Longrightarrow> cmp a c \<le> 0"
  shows "filter (\<lambda>y. cmp z y = 0) (insert_sorted cmp x xs) =
         (if cmp z x = 0 then x # filter (\<lambda>y. cmp z y = 0) xs else filter (\<lambda>y. cmp z y = 0) xs)"
proof (induction xs)
  case Nil
  show ?case by simp
next
  case (Cons y ys)
  show ?case
  proof (cases "cmp x y \<le> 0")
    case True
    then show ?thesis by simp
  next
    case False
    have "\<not> (cmp z x = 0 \<and> cmp z y = 0)"
    proof
      assume h: "cmp z x = 0 \<and> cmp z y = 0"
      then have "cmp x z \<le> 0" and "cmp z y \<le> 0" using sym [of z x] by simp_all
      then have "cmp x y \<le> 0" by (rule trans)
      with False show False by simp
    qed
    with False Cons show ?thesis by auto
  qed
qed

lemma stable_array_sort:
  assumes sym: "\<And>a b. cmp a b = 0 \<Longrightarrow> cmp b a = 0"
    and trans: "\<And>a b c. cmp a b \<le> 0 \<Longrightarrow> cmp b c \<le> 0 \<Longrightarrow> cmp a c \<le> 0"
  shows "filter (\<lambda>y. cmp z y = 0) (array_sort cmp xs) = filter (\<lambda>y. cmp z y = 0) xs"
  unfolding array_sort_def
proof (induction xs)
  case Nil
  show ?case by simp
next
  case (Cons a xs)
  have "filter (\<lambda>y. cmp z y = 0) (insert_sorted cmp a (foldr (insert_sorted cmp) xs [])) =
        (if cmp z a = 0 then a # filter (\<lambda>y. cmp z y = 0) (foldr (insert_sorted cmp) xs [])
         else filter (\<lambda>y. cmp z y = 0) (foldr (insert_sorted cmp) xs []))"
    using sym trans by (rule filter_insert_sorted)
  with Cons show ?case by simp
qed

section \<open>Properties of the comparators\<close>

lemma consistent_total: "consistent_comparator lc \<Longrightarrow> lc a b \<le> 0 \<or> lc b a \<le> 0"
  unfolding consistent_comparator_def by (metis less_le_not_le linorder_le_cases)

lemma consistent_trans:
  "consistent_comparator lc \<Longrightarrow> lc a b \<le> 0 \<Longrightarrow> lc b c \<le> 0 \<Longrightarrow> lc a c \<le> 0"
  unfolding consistent_comparator_def by blast

lemma consistent_sym: "consistent_comparator lc \<Longrightarrow> lc a b = 0 \<Longrightarrow> lc b a = 0"
  unfolding consistent_comparator_def by (metis less_irrefl linorder_neqE_linordered_idom)

lemma consistent_antisym:
  "consistent_comparator lc \<Longrightarrow> lc a b \<le> 0 \<Longrightarrow> lc b a \<le> 0 \<Longrightarrow> lc a b = 0"
  unfolding consistent_comparator_def by (metis less_le_not_le order_le_less)

lemma ordinal_compare_consistent: "consistent_comparator ordinal_compare"
  unfolding consistent_comparator_def ordinal_compare_def by auto

lemma compare_names_total:
  "consistent_comparator lc \<Longrightarrow> le_by (compare_names lc) a b \<or> le_by (compare_names lc) b a"
  by (simp add: le_by_def compare_names_def consistent_total)

lemma compare_names_trans:
  "consistent_comparator lc \<Longrightarrow> le_by (compare_names lc) a b \<Longrightarrow> le_by (compare_names lc) b c
     \<Longrightarrow> le_by (compare_names lc) a c"
  unfolding le_by_def compare_names_def by (rule consistent_trans)

lemma compare_entries_total:
  "consistent_comparator lc \<Longrightarrow>
     le_by (compare_entries lc act) a b \<or> le_by (compare_entries lc act) b a"
  using consistent_total [of lc "group_mapName (snd a)" "group_mapName (snd b)"]
  by (simp add: le_by_def compare_entries_def)

lemma compare_entries_trans:
  assumes "consistent_comparator lc"
    and "le_by (compare_entries lc act) a b" and "le_by (compare_entries lc act) b c"
  shows "le_by (compare_entries lc act) a c"
proof (cases "Some (fst a) = act")
  case True
  then show ?thesis by (simp add: le_by_def compare_entries_def)
next
  case False
  with assms(2) have b: "Some (fst b) \<noteq> act"
    and ab: "lc (group_mapName (snd a)) (group_mapName (snd b)) \<le> 0"
    by (auto simp add: le_by_def compare_entries_def split: if_splits)
  with assms(3) have c: "Some (fst c) \<noteq> act"
    and bc: "lc (group_mapName (snd b)) (group_mapName (snd c)) \<le> 0"
    by (auto simp add: le_by_def compare_entries_def split: if_splits)
  from consistent_trans [OF assms(1) ab bc] False c show ?thesis
    by (simp add: le_by_def compare_entries_def)
qed

section \<open>Properties of the grouping loop\<close>

lemma map_fst_update_group:
  "map fst (map (\<lambda>(k, g). if k = i then (k, F g) else (k, g)) gs) = map fst gs"
  by (induction gs) auto

lemma update_group_absent:
  "i \<notin> fst ` set gs \<Longrightarrow> map (\<lambda>(k, g). if k = i then (k, F g) else (k, g)) gs = gs"
  by (induction gs) auto

lemma in_update_group:
  "(k, g') \<in> set (map (\<lambda>(k, g). if k = i then (k, F g) else (k, g)) gs) \<Longrightarrow>
     \<exists>g. (k, g) \<in> set gs \<and> g' = (if k = i then F g else g)"
  by (induction gs) (auto split: if_splits)

lemma of_map_snoc:
  "of_map k (seen @ [r]) = (if mapId r = k then of_map k seen @ [r] else of_map k seen)"
  by (simp add: of_map_def)

lemma groups_of_empty: "groups_of [] []"
  by (simp add: groups_of_def)

lemma groups_ofD:
  assumes "groups_of seen gs"
  shows "distinct (map fst gs)"
    and "\<And>q. q \<in> set seen \<Longrightarrow> mapId q \<in> fst ` set gs"
    and "\<And>k g. (k, g) \<in> set gs \<Longrightarrow> restaurants g = of_map k seen"
    and "\<And>k g. (k, g) \<in> set gs \<Longrightarrow> of_map k seen \<noteq> []"
    and "\<And>k g. (k, g) \<in> set gs \<Longrightarrow> group_mapName g = mapName (hd (of_map k seen))"
  using assms unfolding groups_of_def list_all_iff by auto

lemma groups_ofI:
  assumes "distinct (map fst gs)"
    and "\<And>q. q \<in> set seen \<Longrightarrow> mapId q \<in> fst ` set gs"
    and "\<And>k g. (k, g) \<in> set gs \<Longrightarrow>
           restaurants g = of_map k seen \<and> of_map k seen \<noteq> []
           \<and> group_mapName g = mapName (hd (of_map k seen))"
  shows "groups_of seen gs"
  using assms unfolding groups_of_def list_all_iff by auto

lemma add_restaurant_new:
  assumes inv: "groups_of seen gs" and new: "mapId r \<notin> fst ` set gs"
  shows "groups_of (seen @ [r])
           (gs @ [(mapId r, \<lparr> group_mapName = mapName r, restaurants = [r] \<rparr>)])"
proof (rule groups_ofI)
  show "distinct (map fst (gs @ [(mapId r, \<lparr> group_mapName = mapName r, restaurants = [r] \<rparr>)]))"
    using groups_ofD(1) [OF inv] new by (simp add: image_iff)
next
  fix q
  assume "q \<in> set (seen @ [r])"
  then show "mapId q \<in> fst ` set (gs @ [(mapId r, \<lparr> group_mapName = mapName r, restaurants = [r] \<rparr>)])"
    using groups_ofD(2) [OF inv] by auto
next
  fix k g
  assume kg: "(k, g) \<in> set (gs @ [(mapId r, \<lparr> group_mapName = mapName r, restaurants = [r] \<rparr>)])"
  have none: "of_map (mapId r) seen = []"
  proof (rule ccontr)
    assume "of_map (mapId r) seen \<noteq> []"
    then obtain q where "q \<in> set seen" and "mapId q = mapId r"
      unfolding of_map_def by (metis (mono_tags, lifting) filter_False mem_Collect_eq)
    with groups_ofD(2) [OF inv] new show False by metis
  qed
  show "restaurants g = of_map k (seen @ [r]) \<and> of_map k (seen @ [r]) \<noteq> []
          \<and> group_mapName g = mapName (hd (of_map k (seen @ [r])))"
  proof (cases "(k, g) \<in> set gs")
    case True
    then have "k \<noteq> mapId r" using new by (metis fst_conv image_eqI)
    with groups_ofD(3) [OF inv True] groups_ofD(4) [OF inv True] groups_ofD(5) [OF inv True]
    show ?thesis by (simp add: of_map_snoc)
  next
    case False
    with kg have "k = mapId r" and "g = \<lparr> group_mapName = mapName r, restaurants = [r] \<rparr>"
      by simp_all
    with none show ?thesis by (simp add: of_map_snoc)
  qed
qed

lemma add_restaurant_known:
  assumes inv: "groups_of seen gs" and known: "mapId r \<in> fst ` set gs"
  shows "groups_of (seen @ [r])
           (map (\<lambda>(k, g). if k = mapId r then (k, g\<lparr>restaurants := restaurants g @ [r]\<rparr>)
                            else (k, g)) gs)"
    (is "groups_of _ ?gs'")
proof (rule groups_ofI)
  show "distinct (map fst ?gs')"
    using groups_ofD(1) [OF inv] by (simp only: map_fst_update_group)
next
  fix q
  assume "q \<in> set (seen @ [r])"
  then have "mapId q \<in> fst ` set gs"
    using groups_ofD(2) [OF inv] known by auto
  then have "mapId q \<in> set (map fst gs)" by (simp only: set_map)
  then have "mapId q \<in> set (map fst ?gs')" by (simp only: map_fst_update_group)
  then show "mapId q \<in> fst ` set ?gs'" by (simp only: set_map)
next
  fix k g'
  assume "(k, g') \<in> set ?gs'"
  from in_update_group [OF this] obtain g where g: "(k, g) \<in> set gs"
    and g': "g' = (if k = mapId r then g\<lparr>restaurants := restaurants g @ [r]\<rparr> else g)"
    by blast
  from groups_ofD(3) [OF inv g] groups_ofD(4) [OF inv g] groups_ofD(5) [OF inv g] g'
  show "restaurants g' = of_map k (seen @ [r]) \<and> of_map k (seen @ [r]) \<noteq> []
          \<and> group_mapName g' = mapName (hd (of_map k (seen @ [r])))"
    by (cases "k = mapId r") (simp_all add: of_map_snoc)
qed

lemma add_restaurant_groups_of:
  assumes inv: "groups_of seen gs" and plain: "mapId r \<notin> set object_prototype_keys"
  shows "\<exists>gs'. add_restaurant r gs = Inr gs' \<and> groups_of (seen @ [r]) gs'"
proof (cases "mapId r \<in> fst ` set gs")
  case True
  then have "map_of gs (mapId r) \<noteq> None"
    by (simp add: map_of_eq_None_iff)
  with plain have "add_restaurant r gs =
      Inr (map (\<lambda>(k, g). if k = mapId r then (k, g\<lparr>restaurants := restaurants g @ [r]\<rparr>)
                            else (k, g)) gs)"
    by (simp add: add_restaurant_def)
  with add_restaurant_known [OF inv True] show ?thesis by simp
next
  case False
  then have "map_of gs (mapId r) = None"
    by (simp add: map_of_eq_None_iff)
  with plain False have "add_restaurant r gs =
      Inr (gs @ [(mapId r, \<lparr> group_mapName = mapName r, restaurants = [r] \<rparr>)])"
    by (simp add: add_restaurant_def update_group_absent)
  with add_restaurant_new [OF inv False] show ?thesis by simp
qed

lemma forEach_add_groups_of:
  assumes "plain_ids rs" and "groups_of seen gs"
  shows "\<exists>gs'. forEach_add rs gs = Inr gs' \<and> groups_of (seen @ rs) gs'"
  using assms
proof (induction rs arbitrary: seen gs)
  case Nil
  then show ?case by simp
next
  case (Cons r rs)
  from Cons.prems(1) have r: "mapId r \<notin> set object_prototype_keys" and rs: "plain_ids rs"
    by (simp_all add: plain_ids_def)
  from add_restaurant_groups_of [OF Cons.prems(2) r]
  obtain gs1 where 1: "add_restaurant r gs = Inr gs1" and 2: "groups_of (seen @ [r]) gs1"
    by blast
  from Cons.IH [OF rs 2] obtain gs' where "forEach_add rs gs1 = Inr gs'"
    and "groups_of ((seen @ [r]) @ rs) gs'"
    by blast
  with 1 show ?case by simp
qed

text \<open>A map id that names an inherited member makes the loop throw.\<close>

lemma forEach_add_throws:
  "\<not> plain_ids rs \<Longrightarrow> \<exists>e. forEach_add rs gs = Inl e"
proof (induction rs arbitrary: gs)
  case Nil
  then show ?case by (simp add: plain_ids_def)
next
  case (Cons r rs)
  show ?case
  proof (cases "add_restaurant r gs")
    case (Inl e)
    then show ?thesis by simp
  next
    case (Inr gs1)
    then have "mapId r \<notin> set object_prototype_keys"
      by (auto simp add: add_restaurant_def split: if_splits)
    with Cons.prems have "\<not> plain_ids rs" by (simp add: plain_ids_def)
    from Cons.IH [OF this, of gs1] Inr show ?thesis by simp
  qed
qed

section \<open>Properties of the entries\<close>

lemma mset_object_entries: "mset (object_entries obj) = mset obj"
  unfolding object_entries_def
  by (simp add: multiset_partition [symmetric])

lemma map_fst_sort_each_group: "map fst (sort_each_group lc gs) = map fst gs"
  unfolding sort_each_group_def by (induction gs) auto

lemma in_sort_each_group:
  "(k, g') \<in> set (sort_each_group lc gs) \<longleftrightarrow>
     (\<exists>g. (k, g) \<in> set gs \<and> g' = g\<lparr>restaurants := array_sort (compare_names lc) (restaurants g)\<rparr>)"
  unfolding sort_each_group_def by (induction gs) auto

lemma sorted_group_is_group_for:
  assumes inv: "groups_of rs gs" and g: "(k, g) \<in> set gs"
  shows "g\<lparr>restaurants := array_sort (compare_names lc) (restaurants g)\<rparr> = group_for lc rs k"
  using groups_ofD(3) [OF inv g] groups_ofD(5) [OF inv g] by (cases g) (simp add: group_for_def)

lemma key_has_restaurant:
  assumes inv: "groups_of rs gs" and g: "(k, g) \<in> set gs"
  shows "k \<in> mapId ` set rs"
proof -
  from groups_ofD(4) [OF inv g] have "of_map k rs \<noteq> []" .
  then obtain q where "q \<in> set (of_map k rs)" by (cases "of_map k rs") auto
  then show ?thesis by (auto simp add: of_map_def)
qed

lemma set_sort_each_group:
  assumes inv: "groups_of rs gs"
  shows "set (sort_each_group lc gs) = (\<lambda>k. (k, group_for lc rs k)) ` (mapId ` set rs)"
proof (intro set_eqI iffI)
  fix e
  assume e: "e \<in> set (sort_each_group lc gs)"
  obtain k g' where kg: "e = (k, g')" by (cases e)
  with e in_sort_each_group [of k g' lc gs] obtain g where g: "(k, g) \<in> set gs"
    and g': "g' = g\<lparr>restaurants := array_sort (compare_names lc) (restaurants g)\<rparr>"
    by blast
  from g' sorted_group_is_group_for [OF inv g] have "g' = group_for lc rs k" by simp
  with kg key_has_restaurant [OF inv g]
  show "e \<in> (\<lambda>k. (k, group_for lc rs k)) ` (mapId ` set rs)" by simp
next
  fix e
  assume "e \<in> (\<lambda>k. (k, group_for lc rs k)) ` (mapId ` set rs)"
  then obtain q where q: "q \<in> set rs" and e: "e = (mapId q, group_for lc rs (mapId q))"
    by auto
  from groups_ofD(2) [OF inv q] obtain g where g: "(mapId q, g) \<in> set gs"
    by auto
  from sorted_group_is_group_for [OF inv g] g e
  show "e \<in> set (sort_each_group lc gs)"
    using in_sort_each_group [of "mapId q" "group_for lc rs (mapId q)" lc gs] by metis
qed

section \<open>Properties of groupedByMap\<close>

lemma hd_of_map:
  assumes "k \<in> mapId ` set rs"
  shows "hd (of_map k rs) \<in> set rs" and "mapId (hd (of_map k rs)) = k"
proof -
  from assms have "of_map k rs \<noteq> []"
    by (auto simp add: of_map_def filter_empty_conv)
  then have "hd (of_map k rs) \<in> set (of_map k rs)" by simp
  then show "hd (of_map k rs) \<in> set rs" and "mapId (hd (of_map k rs)) = k"
    by (simp_all add: of_map_def)
qed

lemma tie_freeD:
  assumes "tie_free lc rs" and "a \<in> set rs" and "b \<in> set rs"
  shows "mapId a = mapId b \<Longrightarrow> lc (name a) (name b) = 0 \<Longrightarrow> a = b"
    and "mapId a = mapId b \<Longrightarrow> mapName a = mapName b"
    and "lc (mapName a) (mapName b) = 0 \<Longrightarrow> mapId a = mapId b"
  using assms unfolding tie_free_def list_all_iff by blast+

lemma sorted_wrt_hd:
  "sorted_wrt R xs \<Longrightarrow> x \<in> set xs \<Longrightarrow> hd xs = x \<or> R (hd xs) x"
  by (cases xs) auto

text \<open>What the function returns, for map ids that are no inherited member names.\<close>

lemma groupedByMap_characterised:
  assumes lc: "consistent_comparator lc" and ids: "plain_ids rs"
  shows "\<exists>out. groupedByMap lc act rs = Inr out
           \<and> set out = (\<lambda>k. (k, group_for lc rs k)) ` (mapId ` set rs)
           \<and> distinct (map fst out)
           \<and> sorted_wrt (le_by (compare_entries lc act)) out"
proof -
  from forEach_add_groups_of [OF ids groups_of_empty]
  obtain gs where run: "forEach_add rs [] = Inr gs" and inv: "groups_of rs gs"
    by auto
  let ?out = "array_sort (compare_entries lc act) (object_entries (sort_each_group lc gs))"
  from run have 1: "groupedByMap lc act rs = Inr ?out"
    by (simp add: groupedByMap_def)
  have m: "mset ?out = mset (sort_each_group lc gs)"
    by (simp add: mset_array_sort mset_object_entries)
  then have "set ?out = set (sort_each_group lc gs)"
    by (metis set_mset_mset)
  with set_sort_each_group [OF inv]
  have 2: "set ?out = (\<lambda>k. (k, group_for lc rs k)) ` (mapId ` set rs)"
    by simp
  from m have "mset (map fst ?out) = mset (map fst (sort_each_group lc gs))"
    by (metis mset_map)
  then have "mset (map fst ?out) = mset (map fst gs)"
    by (simp only: map_fst_sort_each_group)
  with groups_ofD(1) [OF inv] have 3: "distinct (map fst ?out)"
    by (metis mset_eq_imp_distinct_iff)
  have 4: "sorted_wrt (le_by (compare_entries lc act)) ?out"
    by (rule sorted_array_sort) (rule compare_entries_total [OF lc], rule compare_entries_trans [OF lc])
  from 1 2 3 4 show ?thesis by blast
qed

lemma plain_ids_cong: "set rs' = set rs \<Longrightarrow> plain_ids rs' = plain_ids rs"
  by (simp add: plain_ids_def list_all_iff)

lemma group_for_permuted:
  assumes lc: "consistent_comparator lc" and perm: "mset rs' = mset rs"
    and free: "tie_free lc rs" and k: "k \<in> mapId ` set rs"
  shows "group_for lc rs' k = group_for lc rs k"
proof -
  from perm have sets: "set rs' = set rs" by (metis set_mset_mset)
  from perm have m: "mset (of_map k rs') = mset (of_map k rs)"
    by (simp add: of_map_def)
  have "array_sort (compare_names lc) (of_map k rs') = array_sort (compare_names lc) (of_map k rs)"
  proof (rule sorted_wrt_unique [where R = "le_by (compare_names lc)"])
    show "sorted_wrt (le_by (compare_names lc)) (array_sort (compare_names lc) (of_map k rs'))"
      by (rule sorted_array_sort) (rule compare_names_total [OF lc], rule compare_names_trans [OF lc])
    show "sorted_wrt (le_by (compare_names lc)) (array_sort (compare_names lc) (of_map k rs))"
      by (rule sorted_array_sort) (rule compare_names_total [OF lc], rule compare_names_trans [OF lc])
    show "mset (array_sort (compare_names lc) (of_map k rs')) =
          mset (array_sort (compare_names lc) (of_map k rs))"
      using m by (simp add: mset_array_sort)
  next
    fix a b
    assume "a \<in> set (array_sort (compare_names lc) (of_map k rs'))"
      and "b \<in> set (array_sort (compare_names lc) (of_map k rs'))"
      and ab: "le_by (compare_names lc) a b" and ba: "le_by (compare_names lc) b a"
    then have a: "a \<in> set rs" and b: "b \<in> set rs" and same: "mapId a = mapId b"
      using sets by (simp_all add: set_array_sort of_map_def)
    from ab ba have "lc (name a) (name b) = 0"
      unfolding le_by_def compare_names_def by (rule consistent_antisym [OF lc])
    with tie_freeD(1) [OF free a b same] show "a = b" .
  qed
  moreover have "mapName (hd (of_map k rs')) = mapName (hd (of_map k rs))"
  proof -
    from k sets have k': "k \<in> mapId ` set rs'" by simp
    from hd_of_map [OF k'] sets have "hd (of_map k rs') \<in> set rs" and "mapId (hd (of_map k rs')) = k"
      by simp_all
    with hd_of_map [OF k] tie_freeD(2) [OF free, of "hd (of_map k rs')" "hd (of_map k rs)"]
    show ?thesis by simp
  qed
  ultimately show ?thesis by (simp add: group_for_def)
qed

lemma entries_antisym:
  assumes lc: "consistent_comparator lc" and free: "tie_free lc rs"
    and a: "a \<in> (\<lambda>k. (k, group_for lc rs k)) ` (mapId ` set rs)"
    and b: "b \<in> (\<lambda>k. (k, group_for lc rs k)) ` (mapId ` set rs)"
    and ab: "le_by (compare_entries lc act) a b" and ba: "le_by (compare_entries lc act) b a"
  shows "a = b"
proof -
  from a obtain k1 where k1: "k1 \<in> mapId ` set rs" and a': "a = (k1, group_for lc rs k1)" by blast
  from b obtain k2 where k2: "k2 \<in> mapId ` set rs" and b': "b = (k2, group_for lc rs k2)" by blast
  have "k1 = k2"
  proof (cases "Some k1 = act")
    case True
    with ba a' b' show ?thesis
      by (auto simp add: le_by_def compare_entries_def split: if_splits)
  next
    case False
    with ab a' b' have n2: "Some k2 \<noteq> act"
      and 1: "lc (group_mapName (group_for lc rs k1)) (group_mapName (group_for lc rs k2)) \<le> 0"
      by (auto simp add: le_by_def compare_entries_def split: if_splits)
    from ba a' b' False n2
    have 2: "lc (group_mapName (group_for lc rs k2)) (group_mapName (group_for lc rs k1)) \<le> 0"
      by (auto simp add: le_by_def compare_entries_def split: if_splits)
    from consistent_antisym [OF lc 1 2]
    have "lc (mapName (hd (of_map k1 rs))) (mapName (hd (of_map k2 rs))) = 0"
      by (simp add: group_for_def)
    from tie_freeD(3) [OF free hd_of_map(1) [OF k1] hd_of_map(1) [OF k2] this]
    show ?thesis by (simp add: hd_of_map(2) [OF k1] hd_of_map(2) [OF k2])
  qed
  with a' b' show ?thesis by simp
qed

lemma groupedByMap_permuted:
  assumes lc: "consistent_comparator lc" and ids: "plain_ids rs"
    and perm: "mset rs' = mset rs" and free: "tie_free lc rs"
  shows "groupedByMap lc act rs' = groupedByMap lc act rs"
proof -
  from perm have sets: "set rs' = set rs" by (metis set_mset_mset)
  from ids plain_ids_cong [OF sets] have ids': "plain_ids rs'" by simp
  from groupedByMap_characterised [OF lc ids, of act]
  obtain out where out: "groupedByMap lc act rs = Inr out"
    and s: "set out = (\<lambda>k. (k, group_for lc rs k)) ` (mapId ` set rs)"
    and d: "distinct (map fst out)"
    and o: "sorted_wrt (le_by (compare_entries lc act)) out"
    by blast
  from groupedByMap_characterised [OF lc ids', of act]
  obtain out' where out': "groupedByMap lc act rs' = Inr out'"
    and s': "set out' = (\<lambda>k. (k, group_for lc rs' k)) ` (mapId ` set rs')"
    and d': "distinct (map fst out')"
    and o': "sorted_wrt (le_by (compare_entries lc act)) out'"
    by blast
  have "(\<lambda>k. (k, group_for lc rs' k)) ` (mapId ` set rs) = (\<lambda>k. (k, group_for lc rs k)) ` (mapId ` set rs)"
    by (rule image_cong) (simp_all add: group_for_permuted [OF lc perm free])
  with s s' sets have "set out' = set out" by simp
  moreover from d d' have "distinct out" and "distinct out'"
    by (simp_all add: distinct_map)
  ultimately have m: "mset out' = mset out"
    by (simp add: set_eq_iff_mset_eq_distinct)
  have "out' = out"
  proof (rule sorted_wrt_unique [OF o' o m])
    fix a b
    assume "a \<in> set out'" and "b \<in> set out'"
      and "le_by (compare_entries lc act) a b" and "le_by (compare_entries lc act) b a"
    with \<open>set out' = set out\<close> s show "a = b"
      using entries_antisym [OF lc free, of a b act] by simp
  qed
  with out out' show ?thesis by simp
qed

lemma le_by_compare_names:
  "le_by (compare_names lc) = (\<lambda>a b. lc (name a) (name b) \<le> 0)"
  by (simp add: le_by_def compare_names_def fun_eq_iff)

lemma stable_by_name:
  assumes lc: "consistent_comparator lc"
  shows "filter (\<lambda>y. lc n (name y) = 0) (array_sort (compare_names lc) xs)
         = filter (\<lambda>y. lc n (name y) = 0) xs"
proof -
  have sym: "\<And>a b. compare_names lc a b = 0 \<Longrightarrow> compare_names lc b a = 0"
    unfolding compare_names_def by (rule consistent_sym [OF lc])
  have trans: "\<And>a b c. compare_names lc a b \<le> 0 \<Longrightarrow> compare_names lc b c \<le> 0
      \<Longrightarrow> compare_names lc a c \<le> 0"
    unfolding compare_names_def by (rule consistent_trans [OF lc])
  from stable_array_sort [of "compare_names lc"
      "\<lparr> rid = [], name = n, mapId = [], mapName = [] \<rparr>" xs, OF sym trans]
  show ?thesis by (simp add: compare_names_def)
qed

lemma group_for_properties:
  assumes lc: "consistent_comparator lc"
  shows "mset (restaurants (group_for lc rs k)) = mset (of_map k rs)
     \<and> sorted_wrt (\<lambda>a b. lc (name a) (name b) \<le> 0) (restaurants (group_for lc rs k))
     \<and> (\<forall>n. filter (\<lambda>y. lc n (name y) = 0) (restaurants (group_for lc rs k))
            = filter (\<lambda>y. lc n (name y) = 0) (of_map k rs))
     \<and> group_mapName (group_for lc rs k) = mapName (hd (of_map k rs))"
proof -
  have "sorted_wrt (le_by (compare_names lc)) (array_sort (compare_names lc) (of_map k rs))"
    by (rule sorted_array_sort) (rule compare_names_total [OF lc], rule compare_names_trans [OF lc])
  then have "sorted_wrt (\<lambda>a b. lc (name a) (name b) \<le> 0) (array_sort (compare_names lc) (of_map k rs))"
    by (simp only: le_by_compare_names)
  then show ?thesis
    by (simp add: group_for_def mset_array_sort stable_by_name [OF lc])
qed

lemma active_group_first:
  assumes s: "set out = (\<lambda>k. (k, group_for lc rs k)) ` (mapId ` set rs)"
    and o: "sorted_wrt (le_by (compare_entries lc act)) out"
    and act: "act = Some a" and a: "a \<in> mapId ` set rs"
  shows "fst (hd out) = a"
proof -
  from s a have "(a, group_for lc rs a) \<in> set out" by simp
  from sorted_wrt_hd [OF o this]
  show ?thesis
  proof
    assume "hd out = (a, group_for lc rs a)"
    then show ?thesis by simp
  next
    assume "le_by (compare_entries lc act) (hd out) (a, group_for lc rs a)"
    with act show ?thesis
      by (simp add: le_by_def compare_entries_def split: if_splits)
  qed
qed

lemma others_by_map_name:
  assumes o: "sorted_wrt (le_by (compare_entries lc act)) out"
  shows "sorted_wrt (\<lambda>e f. lc (group_mapName (snd e)) (group_mapName (snd f)) \<le> 0)
           (filter (\<lambda>e. Some (fst e) \<noteq> act) out)"
proof (rule sorted_wrt_mono_rel [where P = "le_by (compare_entries lc act)"])
  show "sorted_wrt (le_by (compare_entries lc act)) (filter (\<lambda>e. Some (fst e) \<noteq> act) out)"
    using o by (rule sorted_wrt_filter)
next
  fix x y
  assume "x \<in> set (filter (\<lambda>e. Some (fst e) \<noteq> act) out)"
    and "y \<in> set (filter (\<lambda>e. Some (fst e) \<noteq> act) out)"
    and "le_by (compare_entries lc act) x y"
  then show "lc (group_mapName (snd x)) (group_mapName (snd y)) \<le> 0"
    by (simp add: le_by_def compare_entries_def)
qed

text \<open>
  Claim C6, as amended. Let the platform's string comparison be a consistent comparator
  and let no map id be the name of a member inherited from \<^verbatim>\<open>Object.prototype\<close>
  (for such an id the function throws). Then for every list of restaurants and every
  active map id (or none) the function returns a list of groups such that:
  \<^item> there is exactly one group per map id of the list;
  \<^item> a group holds exactly the restaurants of its map, in non-descending order of their
    names, restaurants whose names compare as equal staying in the order of the input,
    and carries the map name of the map's first restaurant in the input;
  \<^item> when the active map has a restaurant in the list, its group is first;
  \<^item> the other groups are in non-descending order of their map names;
  \<^item> every permutation of the input gives the same result, provided the input has
    no ties: restaurants of one map with names that compare as equal are the same,
    restaurants of one map carry one map name, and map names of different maps do not
    compare as equal.
\<close>

theorem C6_grouping:
  assumes lc: "consistent_comparator lc" and ids: "plain_ids rs"
  shows "\<exists>out. groupedByMap lc act rs = Inr out
     \<and> distinct (map fst out) \<and> set (map fst out) = mapId ` set rs
     \<and> (\<forall>(k, g) \<in> set out.
           mset (restaurants g) = mset (of_map k rs)
         \<and> sorted_wrt (\<lambda>a b. lc (name a) (name b) \<le> 0) (restaurants g)
         \<and> (\<forall>n. filter (\<lambda>y. lc n (name y) = 0) (restaurants g)
                = filter (\<lambda>y. lc n (name y) = 0) (of_map k rs))
         \<and> group_mapName g = mapName (hd (of_map k rs)))
     \<and> (\<forall>a. act = Some a \<and> a \<in> mapId ` set rs \<longrightarrow> fst (hd out) = a)
     \<and> sorted_wrt (\<lambda>e f. lc (group_mapName (snd e)) (group_mapName (snd f)) \<le> 0)
          (filter (\<lambda>e. Some (fst e) \<noteq> act) out)
     \<and> (\<forall>rs'. mset rs' = mset rs \<and> tie_free lc rs \<longrightarrow> groupedByMap lc act rs' = Inr out)"
proof -
  from groupedByMap_characterised [OF lc ids, of act]
  obtain out where out: "groupedByMap lc act rs = Inr out"
    and s: "set out = (\<lambda>k. (k, group_for lc rs k)) ` (mapId ` set rs)"
    and d: "distinct (map fst out)"
    and o: "sorted_wrt (le_by (compare_entries lc act)) out"
    by blast
  have "set (map fst out) = fst ` set out" by simp
  also have "\<dots> = mapId ` set rs"
    unfolding s by (simp add: image_image)
  finally have keys: "set (map fst out) = mapId ` set rs" .
  have groups: "\<forall>(k, g) \<in> set out.
           mset (restaurants g) = mset (of_map k rs)
         \<and> sorted_wrt (\<lambda>a b. lc (name a) (name b) \<le> 0) (restaurants g)
         \<and> (\<forall>n. filter (\<lambda>y. lc n (name y) = 0) (restaurants g)
                = filter (\<lambda>y. lc n (name y) = 0) (of_map k rs))
         \<and> group_mapName g = mapName (hd (of_map k rs))"
  proof (intro ballI)
    fix e
    assume "e \<in> set out"
    with s obtain k where "e = (k, group_for lc rs k)" by auto
    with group_for_properties [OF lc, of rs k]
    show "case e of (k, g) \<Rightarrow>
           mset (restaurants g) = mset (of_map k rs)
         \<and> sorted_wrt (\<lambda>a b. lc (name a) (name b) \<le> 0) (restaurants g)
         \<and> (\<forall>n. filter (\<lambda>y. lc n (name y) = 0) (restaurants g)
                = filter (\<lambda>y. lc n (name y) = 0) (of_map k rs))
         \<and> group_mapName g = mapName (hd (of_map k rs))"
      by simp
  qed
  have first: "\<forall>a. act = Some a \<and> a \<in> mapId ` set rs \<longrightarrow> fst (hd out) = a"
    using active_group_first [OF s o] by blast
  note rest = others_by_map_name [OF o]
  have perm: "\<forall>rs'. mset rs' = mset rs \<and> tie_free lc rs \<longrightarrow> groupedByMap lc act rs' = Inr out"
    using groupedByMap_permuted [OF lc ids, of _ act] out by simp
  from out d keys groups first rest perm show ?thesis by blast
qed

lemma example_grouping:
  "groupedByMap ordinal_compare (Some ''m1'') [r_cafe, r_deli, r_bar] =
     Inr [(''m1'', \<lparr> group_mapName = ''Home'', restaurants = [r_bar, r_cafe] \<rparr>),
          (''m2'', \<lparr> group_mapName = ''Away'', restaurants = [r_deli] \<rparr>)]"
  by code_simp

lemma example_plain_ids: "plain_ids [r_cafe, r_deli, r_bar]"
  by code_simp

lemma example_tie_free: "tie_free ordinal_compare [r_cafe, r_deli, r_bar]"
  by code_simp

theorem C6_grouping_witness:
  "consistent_comparator ordinal_compare \<and> plain_ids [r_cafe, r_deli, r_bar]
   \<and> mset [r_bar, r_deli, r_cafe] = mset [r_cafe, r_deli, r_bar]
   \<and> tie_free ordinal_compare [r_cafe, r_deli, r_bar]
   \<and> ''m1'' \<in> mapId ` set [r_cafe, r_deli, r_bar]
   \<and> groupedByMap ordinal_compare (Some ''m1'') [r_bar, r_deli, r_cafe] =
       Inr [(''m1'', \<lparr> group_mapName = ''Home'', restaurants = [r_bar, r_cafe] \<rparr>),
            (''m2'', \<lparr> group_mapName = ''Away'', restaurants = [r_deli] \<rparr>)]"
proof -
  have m: "mset [r_bar, r_deli, r_cafe] = mset [r_cafe, r_deli, r_bar]"
    by simp
  have a: "''m1'' \<in> mapId ` set [r_cafe, r_deli, r_bar]"
    by (simp add: r_cafe_def)
  from C6_grouping [OF ordinal_compare_consistent example_plain_ids, of "Some ''m1''"]
    example_grouping m example_tie_free
  have "groupedByMap ordinal_compare (Some ''m1'') [r_bar, r_deli, r_cafe] =
       Inr [(''m1'', \<lparr> group_mapName = ''Home'', restaurants = [r_bar, r_cafe] \<rparr>),
            (''m2'', \<lparr> group_mapName = ''Away'', restaurants = [r_deli] \<rparr>)]"
    by (metis Inr_inject)
  with ordinal_compare_consistent example_plain_ids m example_tie_free a
  show ?thesis by blast
qed

text \<open>
  Claim C6 as written fails: two restaurants of one map with the same name come out in
  the order of the input, so swapping them in the input changes the result.
\<close>

theorem C6_counterexample:
  "mset [r_cafe_2, r_cafe] = mset [r_cafe, r_cafe_2]
   \<and> groupedByMap ordinal_compare (Some ''m1'') [r_cafe, r_cafe_2] =
       Inr [(''m1'', \<lparr> group_mapName = ''Home'', restaurants = [r_cafe, r_cafe_2] \<rparr>)]
   \<and> groupedByMap ordinal_compare (Some ''m1'') [r_cafe_2, r_cafe] =
       Inr [(''m1'', \<lparr> group_mapName = ''Home'', restaurants = [r_cafe_2, r_cafe] \<rparr>)]
   \<and> groupedByMap ordinal_compare (Some ''m1'') [r_cafe_2, r_cafe]
       \<noteq> groupedByMap ordinal_compare (Some ''m1'') [r_cafe, r_cafe_2]"
proof -
  have 1: "groupedByMap ordinal_compare (Some ''m1'') [r_cafe, r_cafe_2] =
       Inr [(''m1'', \<lparr> group_mapName = ''Home'', restaurants = [r_cafe, r_cafe_2] \<rparr>)]"
    by code_simp
  have 2: "groupedByMap ordinal_compare (Some ''m1'') [r_cafe_2, r_cafe] =
       Inr [(''m1'', \<lparr> group_mapName = ''Home'', restaurants = [r_cafe_2, r_cafe] \<rparr>)]"
    by code_simp
  have 3: "r_cafe \<noteq> r_cafe_2"
    by (simp add: r_cafe_def r_cafe_2_def)
  from 1 2 3 show ?thesis by simp
qed

text \<open>A map id that names an inherited member: the function throws.\<close>

lemma groupedByMap_inherited_key:
  "groupedByMap lc act [r_cafe\<lparr>mapId := ''toString''\<rparr>] = Inl (JsError ''TypeError'')"
  by (simp add: groupedByMap_def add_restaurant_def object_prototype_keys_def)

end
